theory Spec2Isabelle
  imports Complex_Main "HOL-Library.AList"
begin

section \<open>Numbers, errors and containers\<close>

text \<open>
  The programs compute with Python and NumPy double precision floats. Every finite float
  is modelled by the real number it denotes and every operation by the exact one: there
  is no rounding and no overflow, and zero has no sign. What a float can be besides a
  finite number is kept: \<open>pyfloat\<close> has the two infinities and NaN, which pandas also
  uses for "not available". Plain Python code (the portfolio, the hand-written
  indicators, the scanner) raises \<open>ZeroDivisionError\<close> where NumPy returns an infinity
  or NaN; there a number is a \<open>real\<close> and the exception is a value of \<open>error\<close>.
  A raw price or volume series is a list of finite numbers without missing entries
  (what \<open>fetch_daily_klines\<close> and \<open>klines_to_dataframe\<close> build), so
  \<open>Series.dropna\<close> in \<open>validate_input\<close> keeps every entry of it.
\<close>

datatype error = TypeError | ValueError | ZeroDivisionError | OverflowError | KeyError | DataError

datatype pyfloat = Fin real | PInf | NInf | NaN

text \<open>Python's \<open>int(x)\<close> on a finite float truncates towards zero.\<close>

definition py_int :: "real \<Rightarrow> int" where
  "py_int x = (if 0 \<le> x then \<lfloor>x\<rfloor> else \<lceil>x\<rceil>)"


section \<open>The backtest engine: \<open>stock_analysis/backtest.py\<close>\<close>

subsection \<open>Position and Portfolio\<close>

text \<open>
  Dates are ordinals. \<open>positions\<close> is the dict of the source, in insertion order;
  a history entry is the dict appended by \<open>buy\<close> and \<open>sell\<close>, whose \<open>cost\<close> or
  \<open>revenue\<close> key is the field \<open>t_amount\<close>.
\<close>

record position =
  symbol :: string
  quantity :: real
  entry_price :: real
  entry_date :: int
  exit_price :: "real option"
  exit_date :: "int option"
  position_type :: string

record transaction =
  t_date :: int
  t_symbol :: string
  t_action :: string
  t_quantity :: real
  t_price :: real
  t_amount :: real
  t_cash_after :: real

record portfolio =
  initial_capital :: real
  cash :: real
  positions :: "(string \<times> position) list"
  history :: "transaction list"
  current_date :: "int option"

definition Portfolio :: "real \<Rightarrow> portfolio" where
  "Portfolio capital =
     \<lparr>initial_capital = capital, cash = capital, positions = [], history = [],
      current_date = None\<rparr>"

fun position_value :: "(string \<rightharpoonup> real) \<Rightarrow> string \<times> position \<Rightarrow> real" where
  "position_value prices (symb, pos) =
     (case prices symb of
        None \<Rightarrow> 0
      | Some price \<Rightarrow>
          if position_type pos = ''long'' then quantity pos * price
          else (let current_value = quantity pos * (entry_price pos - price)
                in quantity pos * entry_price pos + current_value))"

definition get_total_value :: "portfolio \<Rightarrow> (string \<rightharpoonup> real) \<Rightarrow> real" where
  "get_total_value pf prices =
     (let positions_value = foldl (\<lambda>acc item. acc + position_value prices item) 0 (positions pf)
      in cash pf + positions_value)"

text \<open>
  \<open>buy\<close> and \<open>sell\<close> return the flag of the source together with the portfolio after
  the call. The only exception \<open>buy\<close> can raise is the division by a zero total
  quantity in the average entry price.
\<close>

definition buy :: "portfolio \<Rightarrow> string \<Rightarrow> real \<Rightarrow> real \<Rightarrow> int \<Rightarrow> error + bool \<times> portfolio" where
  "buy pf symb qty price date =
     (let cost = qty * price in
      if cost > cash pf then Inr (False, pf)
      else
        let cash' = cash pf - cost;
            record_tx = (\<lambda>ps. Inr (True, pf\<lparr>cash := cash', positions := ps,
              history := history pf @
                [\<lparr>t_date = date, t_symbol = symb, t_action = ''BUY'', t_quantity = qty,
                  t_price = price, t_amount = cost, t_cash_after = cash'\<rparr>]\<rparr>))
        in
          case map_of (positions pf) symb of
            Some existing_pos \<Rightarrow>
              let total_quantity = quantity existing_pos + qty;
                  total_cost = quantity existing_pos * entry_price existing_pos + cost
              in if total_quantity = 0 then Inl ZeroDivisionError
                 else
                   let new_entry_price = total_cost / total_quantity
                   in record_tx (AList.update symb
                        \<lparr>symbol = symb, quantity = total_quantity,
                         entry_price = new_entry_price,
                         entry_date = entry_date existing_pos,
                         exit_price = None, exit_date = None,
                         position_type = ''long''\<rparr> (positions pf))
          | None \<Rightarrow>
              record_tx (AList.update symb
                \<lparr>symbol = symb, quantity = qty, entry_price = price, entry_date = date,
                 exit_price = None, exit_date = None, position_type = ''long''\<rparr>
                (positions pf)))"

definition sell :: "portfolio \<Rightarrow> string \<Rightarrow> real \<Rightarrow> real \<Rightarrow> int \<Rightarrow> bool \<times> portfolio" where
  "sell pf symb qty price date =
     (case map_of (positions pf) symb of
        None \<Rightarrow> (False, pf)
      | Some pos \<Rightarrow>
          if qty > quantity pos then (False, pf)
          else
            let revenue = qty * price;
                cash' = cash pf + revenue;
                remaining_quantity = quantity pos - qty;
                positions' =
                  (if remaining_quantity = 0 then AList.delete symb (positions pf)
                   else AList.update symb
                     \<lparr>symbol = symb, quantity = remaining_quantity,
                      entry_price = entry_price pos, entry_date = entry_date pos,
                      exit_price = (if remaining_quantity = 0 then Some price else exit_price pos),
                      exit_date = (if remaining_quantity = 0 then Some date else exit_date pos),
                      position_type = position_type pos\<rparr> (positions pf))
            in (True, pf\<lparr>cash := cash', positions := positions',
                  history := history pf @
                    [\<lparr>t_date = date, t_symbol = symb, t_action = ''SELL'', t_quantity = qty,
                      t_price = price, t_amount = revenue, t_cash_after = cash'\<rparr>]\<rparr>))"

subsection \<open>\<open>BacktestEngine.run_backtest\<close>: the loop over the bars\<close>

text \<open>
  A row of the data frame is a \<open>bar\<close>; its index label is \<open>b_date\<close>. The signals are a
  series of (label, value) pairs. Both indexes are taken to be strictly increasing, so
  that \<open>Index.intersection\<close> keeps the common labels in the order of the data.
  Of the result only the per-bar portfolio values and the final portfolio are modelled;
  the summary ratios are computed from the values afterwards and change neither.

  \<open>process_bar\<close> is one pass through the body of the loop: it returns the value recorded
  for the bar and the portfolio after the trade. The close of a row is a NumPy float:
  dividing by a zero close gives an infinity or NaN, on which \<open>int\<close> raises.
\<close>

record bar =
  b_date :: int
  b_open :: real
  b_high :: real
  b_low :: real
  b_close :: real
  b_volume :: real

definition process_bar :: "real \<Rightarrow> real \<Rightarrow> portfolio \<Rightarrow> bar \<Rightarrow> int \<Rightarrow> error + real \<times> portfolio" where
  "process_bar position_size transaction_cost pf current_prices current_signal =
     (let current_date = b_date current_prices;
          close = b_close current_prices;
          current_portfolio_value = get_total_value pf [''close'' \<mapsto> close]
      in
        if current_signal = 1 then
          let available_cash = cash pf;
              max_investment = available_cash * position_size
          in
            if close = 0 then Inl (if max_investment = 0 then ValueError else OverflowError)
            else
              let shares_to_buy = py_int (max_investment / close) in
              if shares_to_buy > 0 then
                let cost_per_share = close * (1 + transaction_cost);
                    actual_cost = real_of_int shares_to_buy * cost_per_share
                in
                  if actual_cost \<le> cash pf then
                    (case buy pf ''close'' (real_of_int shares_to_buy) close current_date of
                       Inl e \<Rightarrow> Inl e
                     | Inr (ok, pf') \<Rightarrow> Inr (current_portfolio_value, pf'))
                  else Inr (current_portfolio_value, pf)
              else Inr (current_portfolio_value, pf)
        else if current_signal = - 1 then
          (case map_of (positions pf) ''close'' of
             Some pos \<Rightarrow>
               let proceeds_per_share = close * (1 - transaction_cost)
               in Inr (current_portfolio_value,
                       snd (sell pf ''close'' (quantity pos) close current_date))
           | None \<Rightarrow> Inr (current_portfolio_value, pf))
        else Inr (current_portfolio_value, pf))"

fun run_bars :: "real \<Rightarrow> real \<Rightarrow> portfolio \<Rightarrow> (bar \<times> int) list \<Rightarrow> error + real list \<times> portfolio" where
  "run_bars position_size transaction_cost pf [] = Inr ([], pf)"
| "run_bars position_size transaction_cost pf ((b, s) # rest) =
     (case process_bar position_size transaction_cost pf b s of
        Inl e \<Rightarrow> Inl e
      | Inr (v, pf') \<Rightarrow>
          (case run_bars position_size transaction_cost pf' rest of
             Inl e \<Rightarrow> Inl e
           | Inr (vs, pf'') \<Rightarrow> Inr (v # vs, pf'')))"

definition run_backtest ::
  "real \<Rightarrow> bar list \<Rightarrow> (int \<times> int) list \<Rightarrow> real \<Rightarrow> real \<Rightarrow> error + real list \<times> portfolio" where
  "run_backtest capital data signals position_size transaction_cost =
     (let data' = (if map b_date data = map fst signals then data
                   else filter (\<lambda>b. b_date b \<in> fst ` set signals) data);
          signals' = (if map b_date data = map fst signals then signals
                      else filter (\<lambda>p. fst p \<in> b_date ` set data) signals)
      in
        if data' = [] then Inl ValueError
        else run_bars position_size transaction_cost (Portfolio capital)
               (map (\<lambda>b. (b, case map_of signals' (b_date b) of Some s \<Rightarrow> s | None \<Rightarrow> 0)) data'))"

text \<open>The number of shares of the traded asset that the portfolio holds.\<close>

definition held :: "portfolio \<Rightarrow> real" where
  "held pf = (case map_of (positions pf) ''close'' of Some pos \<Rightarrow> quantity pos | None \<Rightarrow> 0)"

subsection \<open>Concrete engine inputs\<close>

text \<open>
  The bar of the spec's scenario (close 100), a portfolio that holds one share bought at
  100 out of a capital of 1000, and bars that all close at 100.
\<close>

definition scenario_bar :: bar where
  "scenario_bar = \<lparr>b_date = 0, b_open = 100, b_high = 100, b_low = 100, b_close = 100, b_volume = 0\<rparr>"

definition flat_bar :: "int \<Rightarrow> bar" where
  "flat_bar d = \<lparr>b_date = d, b_open = 100, b_high = 100, b_low = 100, b_close = 100, b_volume = 0\<rparr>"

definition one_share :: portfolio where
  "one_share = snd (projr (buy (Portfolio 1000) ''close'' 1 100 0))"

section \<open>Float arithmetic and comparisons\<close>

text \<open>
  NumPy arithmetic on \<open>pyfloat\<close>: NaN is absorbing, opposite infinities cancel to NaN,
  a finite number divided by zero is an infinity with the sign of the numerator (NaN
  for \<open>0 / 0\<close>), and every ordered comparison with NaN is false.
\<close>

fun fneg :: "pyfloat \<Rightarrow> pyfloat" where
  "fneg (Fin a) = Fin (- a)"
| "fneg PInf = NInf"
| "fneg NInf = PInf"
| "fneg NaN = NaN"

fun fadd :: "pyfloat \<Rightarrow> pyfloat \<Rightarrow> pyfloat" where
  "fadd (Fin a) (Fin b) = Fin (a + b)"
| "fadd NaN y = NaN"
| "fadd x NaN = NaN"
| "fadd PInf NInf = NaN"
| "fadd NInf PInf = NaN"
| "fadd PInf y = PInf"
| "fadd x PInf = PInf"
| "fadd NInf y = NInf"
| "fadd x NInf = NInf"

definition fsub :: "pyfloat \<Rightarrow> pyfloat \<Rightarrow> pyfloat" where
  "fsub x y = fadd x (fneg y)"

text \<open>The sign of a float as \<open>-1\<close>, \<open>0\<close> or \<open>1\<close> (\<open>0\<close> also for NaN).\<close>

fun fsign :: "pyfloat \<Rightarrow> int" where
  "fsign (Fin a) = (if a < 0 then - 1 else if a = 0 then 0 else 1)"
| "fsign PInf = 1"
| "fsign NInf = - 1"
| "fsign NaN = 0"

definition signed_inf :: "int \<Rightarrow> pyfloat" where
  "signed_inf s = (if s < 0 then NInf else if s = 0 then NaN else PInf)"

fun fmul :: "pyfloat \<Rightarrow> pyfloat \<Rightarrow> pyfloat" where
  "fmul (Fin a) (Fin b) = Fin (a * b)"
| "fmul NaN y = NaN"
| "fmul x NaN = NaN"
| "fmul x y = signed_inf (fsign x * fsign y)"

fun fdiv :: "pyfloat \<Rightarrow> pyfloat \<Rightarrow> pyfloat" where
  "fdiv (Fin a) (Fin b) = (if b = 0 then signed_inf (fsign (Fin a)) else Fin (a / b))"
| "fdiv NaN y = NaN"
| "fdiv x NaN = NaN"
| "fdiv (Fin a) y = Fin 0"
| "fdiv x (Fin b) = signed_inf (fsign x * (if b < 0 then - 1 else 1))"
| "fdiv x y = NaN"

fun flt :: "pyfloat \<Rightarrow> pyfloat \<Rightarrow> bool" where
  "flt (Fin a) (Fin b) = (a < b)"
| "flt NaN y = False"
| "flt x NaN = False"
| "flt x NInf = False"
| "flt PInf y = False"
| "flt x y = True"

definition fle :: "pyfloat \<Rightarrow> pyfloat \<Rightarrow> bool" where
  "fle x y = (x \<noteq> NaN \<and> y \<noteq> NaN \<and> (flt x y \<or> x = y))"

definition fgt :: "pyfloat \<Rightarrow> pyfloat \<Rightarrow> bool" where
  "fgt x y = flt y x"

definition fge :: "pyfloat \<Rightarrow> pyfloat \<Rightarrow> bool" where
  "fge x y = fle y x"

definition feq :: "pyfloat \<Rightarrow> pyfloat \<Rightarrow> bool" where
  "feq x y = (x \<noteq> NaN \<and> x = y)"

text \<open>
  \<open>Series.min()\<close> skips NaN and is NaN when nothing is left.
\<close>

definition fmin2 :: "pyfloat \<Rightarrow> pyfloat \<Rightarrow> pyfloat" where
  "fmin2 x y = (if x = NaN then y else if y = NaN then x else if flt y x then y else x)"

definition series_min :: "pyfloat list \<Rightarrow> pyfloat" where
  "series_min xs = foldr fmin2 xs NaN"


section \<open>Performance metrics: \<open>max_drawdown\<close>\<close>

text \<open>
  \<open>expanding().max()\<close> of a series of finite values is the running maximum.
\<close>

fun running_max_from :: "real \<Rightarrow> real list \<Rightarrow> real list" where
  "running_max_from m [] = []"
| "running_max_from m (x # xs) = max m x # running_max_from (max m x) xs"

fun expanding_max :: "real list \<Rightarrow> real list" where
  "expanding_max [] = []"
| "expanding_max (x # xs) = x # running_max_from x xs"

text \<open>One entry of \<open>(portfolio_values - running_max) / running_max\<close>.\<close>

definition drawdown_at :: "real \<Rightarrow> real \<Rightarrow> pyfloat" where
  "drawdown_at v m = fdiv (fsub (Fin v) (Fin m)) (Fin m)"

definition max_drawdown :: "real list \<Rightarrow> pyfloat" where
  "max_drawdown portfolio_values =
     (if length portfolio_values < 2 then Fin 0
      else
        let running_max = expanding_max portfolio_values;
            drawdown = map2 drawdown_at portfolio_values running_max
        in series_min drawdown)"


section \<open>The final trading signal: \<open>signals.generate_trading_signals\<close>\<close>

text \<open>
  A data frame is the dict of its columns, all of the same length; a column holds floats,
  so that a cell may be NaN. \<open>strategy_params\<close> is the dict of the source with the pair
  (buy threshold, sell threshold) as value. The two conditions are evaluated row by row;
  \<open>final_signals\<close> starts at 0, is set to 1 where the buy condition holds and then to
  \<open>-1\<close> where the sell condition holds.
\<close>

type_synonym dataframe = "(string \<times> pyfloat list) list"

definition column :: "dataframe \<Rightarrow> string \<Rightarrow> pyfloat list" where
  "column data col = (case map_of data col of Some xs \<Rightarrow> xs | None \<Rightarrow> [])"

definition strategy_params :: "(string \<times> real \<times> real) list" where
  "strategy_params =
     [(''conservative'', (6/10, - (6/10))),
      (''moderate'', (4/10, - (4/10))),
      (''aggressive'', (2/10, - (2/10)))]"

definition buy_condition :: "real \<times> real \<Rightarrow> pyfloat \<Rightarrow> pyfloat \<Rightarrow> pyfloat \<Rightarrow> bool" where
  "buy_condition params ma_signal rsi_signal composite_score =
     (feq ma_signal (Fin 1) \<and> \<not> feq rsi_signal (Fin (- 1)) \<and> fge composite_score (Fin (fst params)))"

definition sell_condition :: "real \<times> real \<Rightarrow> pyfloat \<Rightarrow> pyfloat \<Rightarrow> pyfloat \<Rightarrow> bool" where
  "sell_condition params ma_signal rsi_signal composite_score =
     (feq ma_signal (Fin (- 1)) \<and> \<not> feq rsi_signal (Fin 1) \<and> fle composite_score (Fin (snd params)))"

definition final_signal :: "real \<times> real \<Rightarrow> pyfloat \<times> pyfloat \<times> pyfloat \<Rightarrow> int" where
  "final_signal params row =
     (case row of (ma_signal, rsi_signal, composite_score) \<Rightarrow>
        let s0 = 0;
            s1 = (if buy_condition params ma_signal rsi_signal composite_score then 1 else s0)
        in if sell_condition params ma_signal rsi_signal composite_score then - 1 else s1)"

definition generate_trading_signals :: "dataframe \<Rightarrow> string \<Rightarrow> error + int list" where
  "generate_trading_signals data strategy =
     (let required_cols = [''ma_signal'', ''rsi_signal'', ''composite_score''];
          missing_cols = filter (\<lambda>col. map_of data col = None) required_cols
      in
        if missing_cols \<noteq> [] then Inl ValueError
        else
          case map_of strategy_params strategy of
            None \<Rightarrow> Inl ValueError
          | Some params \<Rightarrow>
              Inr (map (final_signal params)
                    (zip (column data ''ma_signal'')
                      (zip (column data ''rsi_signal'') (column data ''composite_score'')))))"

definition example_frame :: dataframe where
  "example_frame =
     [(''ma_signal'', [Fin 0, Fin 1, Fin 0, Fin (- 1), Fin 1, NaN]),
      (''rsi_signal'', [Fin 0, Fin 1, Fin (- 1), Fin 0, Fin (- 1), NaN]),
      (''composite_score'', [Fin (1/10), Fin (6/10), Fin (- (3/10)), Fin (- (7/10)), Fin (9/10), NaN])]"

section \<open>Series helpers\<close>

text \<open>
  A series is the list of its values; all the series of one computation share the index
  of the input, so arithmetic between them is position by position. \<open>ebind\<close> passes on
  the first exception.
\<close>

definition ebind :: "error + 'a \<Rightarrow> ('a \<Rightarrow> error + 'b) \<Rightarrow> error + 'b" where
  "ebind m f = (case m of Inl e \<Rightarrow> Inl e | Inr x \<Rightarrow> f x)"

text \<open>
  \<open>rolling(window=w)\<close> has \<open>min_periods = w\<close> and reads an infinity as a missing value:
  the entry at position \<open>i\<close> is NaN unless the \<open>w\<close> values ending at \<open>i\<close> exist and are
  all finite, and then it is the aggregate of these values.
\<close>

fun finite_values :: "pyfloat list \<Rightarrow> real list option" where
  "finite_values [] = Some []"
| "finite_values (Fin a # xs) = map_option ((#) a) (finite_values xs)"
| "finite_values (x # xs) = None"

definition window_at :: "nat \<Rightarrow> 'a list \<Rightarrow> nat \<Rightarrow> 'a list" where
  "window_at w xs i = take w (drop (i + 1 - w) xs)"

definition rolling :: "(real list \<Rightarrow> pyfloat) \<Rightarrow> nat \<Rightarrow> pyfloat list \<Rightarrow> pyfloat list" where
  "rolling agg w xs =
     map (\<lambda>i. if i + 1 < w then NaN
               else case finite_values (window_at w xs i) of
                      None \<Rightarrow> NaN
                    | Some vs \<Rightarrow> agg vs)
       [0..<length xs]"

definition mean :: "real list \<Rightarrow> real" where
  "mean vs = sum_list vs / real (length vs)"

definition roll_mean :: "nat \<Rightarrow> pyfloat list \<Rightarrow> pyfloat list" where
  "roll_mean = rolling (\<lambda>vs. Fin (mean vs))"

definition roll_min :: "nat \<Rightarrow> pyfloat list \<Rightarrow> pyfloat list" where
  "roll_min = rolling (\<lambda>vs. Fin (fold min (tl vs) (hd vs)))"

definition roll_max :: "nat \<Rightarrow> pyfloat list \<Rightarrow> pyfloat list" where
  "roll_max = rolling (\<lambda>vs. Fin (fold max (tl vs) (hd vs)))"

text \<open>
  \<open>rolling(w).std()\<close> is the sample standard deviation (\<open>ddof = 1\<close>), NaN for a window
  of one value.
\<close>

definition sample_std :: "real list \<Rightarrow> pyfloat" where
  "sample_std vs =
     (if length vs < 2 then NaN
      else Fin (sqrt (sum_list (map (\<lambda>x. (x - mean vs)\<^sup>2) vs) / real (length vs - 1))))"

definition roll_std :: "nat \<Rightarrow> pyfloat list \<Rightarrow> pyfloat list" where
  "roll_std = rolling sample_std"

text \<open>
  \<open>ewm(span=s).mean()\<close> with the default \<open>adjust=True\<close> on a series without missing
  values, as pandas computes it: the weight of the old average decays by \<open>1 - \<alpha>\<close>,
  \<open>\<alpha> = 2 / (s + 1)\<close>, the new value enters with weight 1, and the first value is kept.
\<close>

fun ewm_from :: "real \<Rightarrow> real \<Rightarrow> real \<Rightarrow> real list \<Rightarrow> real list" where
  "ewm_from \<alpha> weighted old_wt [] = []"
| "ewm_from \<alpha> weighted old_wt (cur # rest) =
     (let old_wt' = old_wt * (1 - \<alpha>);
          weighted' = (old_wt' * weighted + cur) / (old_wt' + 1)
      in weighted' # ewm_from \<alpha> weighted' (old_wt' + 1) rest)"

fun ewm_mean :: "real \<Rightarrow> real list \<Rightarrow> real list" where
  "ewm_mean spn [] = []"
| "ewm_mean spn (x # xs) = x # ewm_from (2 / (spn + 1)) x 1 xs"

text \<open>\<open>shift(1)\<close> and \<open>diff()\<close>: the first entry is NaN.\<close>

definition shift1 :: "pyfloat list \<Rightarrow> pyfloat list" where
  "shift1 xs = (if xs = [] then [] else NaN # butlast xs)"

definition series_diff :: "pyfloat list \<Rightarrow> pyfloat list" where
  "series_diff xs = map2 fsub xs (shift1 xs)"

definition fillna :: "real \<Rightarrow> pyfloat list \<Rightarrow> pyfloat list" where
  "fillna v xs = map (\<lambda>x. if x = NaN then Fin v else x) xs"


section \<open>The indicator library: \<open>stock_analysis/indicators.py\<close>\<close>

text \<open>
  The input series are raw price series: lists of finite values, on which \<open>dropna\<close> is
  the identity. The type test of \<open>validate_input\<close> is expressed by the types.
\<close>

definition validate_input :: "real list \<Rightarrow> error + real list" where
  "validate_input data = (if length data = 0 then Inl ValueError else Inr data)"

definition moving_average :: "real list \<Rightarrow> int \<Rightarrow> error + pyfloat list" where
  "moving_average data0 window =
     ebind (validate_input data0) (\<lambda>data.
       if window \<le> 0 then Inl ValueError
       else if int (length data) < window then Inl ValueError
       else Inr (roll_mean (nat window) (map Fin data)))"

definition ema :: "real list \<Rightarrow> int \<Rightarrow> error + real list" where
  "ema data0 window =
     ebind (validate_input data0) (\<lambda>data.
       if window \<le> 0 then Inl ValueError
       else if int (length data) < window then Inl ValueError
       else Inr (ewm_mean (real_of_int window) data))"

definition macd :: "real list \<Rightarrow> int \<Rightarrow> int \<Rightarrow> int \<Rightarrow> error + real list \<times> real list \<times> real list" where
  "macd data0 fast slow signal =
     ebind (validate_input data0) (\<lambda>data.
       if fast \<le> 0 \<or> slow \<le> 0 \<or> signal \<le> 0 then Inl ValueError
       else if fast \<ge> slow then Inl ValueError
       else if int (length data) < max slow signal then Inl ValueError
       else
         ebind (ema data fast) (\<lambda>ema_fast.
         ebind (ema data slow) (\<lambda>ema_slow.
           let macd_line = map2 (-) ema_fast ema_slow in
           ebind (ema macd_line signal) (\<lambda>signal_line.
             let histogram = map2 (-) macd_line signal_line
             in Inr (macd_line, signal_line, histogram)))))"

text \<open>
  \<open>rsi\<close>. \<open>gain\<close> and \<open>loss\<close> keep the positive and the negated negative differences;
  the averages start as rolling means and are then overwritten in place, from position
  \<open>window\<close> on, by Wilder's recurrence on the entry before.
\<close>

definition rsi_step :: "int \<Rightarrow> pyfloat list \<Rightarrow> pyfloat list \<Rightarrow> pyfloat list \<times> pyfloat list \<Rightarrow> nat
    \<Rightarrow> pyfloat list \<times> pyfloat list" where
  "rsi_step window gain loss avgs i =
     (case avgs of (avg_gain, avg_loss) \<Rightarrow>
        if i > 0 then
          (avg_gain[i := fdiv (fadd (fmul (avg_gain ! (i - 1)) (Fin (real_of_int (window - 1)))) (gain ! i))
                          (Fin (real_of_int window))],
           avg_loss[i := fdiv (fadd (fmul (avg_loss ! (i - 1)) (Fin (real_of_int (window - 1)))) (loss ! i))
                          (Fin (real_of_int window))])
        else (avg_gain, avg_loss))"

definition rsi :: "real list \<Rightarrow> int \<Rightarrow> error + pyfloat list" where
  "rsi data0 window =
     ebind (validate_input data0) (\<lambda>data.
       if window \<le> 0 then Inl ValueError
       else if int (length data) < window + 1 then Inl ValueError
       else
         let delta = series_diff (map Fin data);
             gain = fillna 0 (map (\<lambda>d. if fgt d (Fin 0) then d else Fin 0) delta);
             loss = fillna 0 (map (\<lambda>d. fneg (if flt d (Fin 0) then d else Fin 0)) delta);
             avgs = foldl (rsi_step window gain loss)
                      (roll_mean (nat window) gain, roll_mean (nat window) loss)
                      [nat window..<length data];
             avg_gain = fst avgs;
             avg_loss = snd avgs;
             rs = map2 fdiv avg_gain (map (\<lambda>x. if feq x (Fin 0) then Fin (1 / 10 ^ 10) else x) avg_loss);
             rsi = map (\<lambda>r. fsub (Fin 100) (fdiv (Fin 100) (fadd (Fin 1) r))) rs
         in Inr rsi)"

definition bollinger_bands ::
  "real list \<Rightarrow> int \<Rightarrow> real \<Rightarrow> error + pyfloat list \<times> pyfloat list \<times> pyfloat list" where
  "bollinger_bands data0 window num_std =
     ebind (validate_input data0) (\<lambda>data.
       if window \<le> 0 then Inl ValueError
       else if num_std \<le> 0 then Inl ValueError
       else if int (length data) < window then Inl ValueError
       else
         let rolling_mean = roll_mean (nat window) (map Fin data);
             rolling_std = roll_std (nat window) (map Fin data);
             upper_band = map2 fadd rolling_mean (map (\<lambda>s. fmul s (Fin num_std)) rolling_std);
             lower_band = map2 fsub rolling_mean (map (\<lambda>s. fmul s (Fin num_std)) rolling_std);
             middle_band = rolling_mean
         in Inr (upper_band, middle_band, lower_band))"

text \<open>
  \<open>kdj\<close>. \<open>kdj_rsv\<close> is the series \<open>k_raw\<close> of the source.
\<close>

definition kdj_rsv :: "real list \<Rightarrow> real list \<Rightarrow> real list \<Rightarrow> nat \<Rightarrow> pyfloat list" where
  "kdj_rsv high low close k_window =
     (let lowest_low = roll_min k_window (map Fin low);
          highest_high = roll_max k_window (map Fin high)
      in map (\<lambda>(c, ll, hh). fmul (fdiv (fsub (Fin c) ll) (fsub hh ll)) (Fin 100))
           (zip close (zip lowest_low highest_high)))"

definition kdj ::
  "real list \<Rightarrow> real list \<Rightarrow> real list \<Rightarrow> int \<Rightarrow> int \<Rightarrow> int
    \<Rightarrow> error + pyfloat list \<times> pyfloat list \<times> pyfloat list" where
  "kdj high0 low0 close0 k_window d_window j_window =
     ebind (validate_input high0) (\<lambda>high.
     ebind (validate_input low0) (\<lambda>low.
     ebind (validate_input close0) (\<lambda>close.
       if \<not> (length high = length low \<and> length low = length close) then Inl ValueError
       else if k_window \<le> 0 \<or> d_window \<le> 0 \<or> j_window \<le> 0 then Inl ValueError
       else if int (length high) < k_window then Inl ValueError
       else
         let k_raw = kdj_rsv high low close (nat k_window);
             k_line = (if d_window > 1 then roll_mean (nat d_window) k_raw else k_raw);
             d_line = (if j_window > 1 then roll_mean (nat j_window) k_line else k_line);
             j_line = map2 (\<lambda>k d. fsub (fmul (Fin 3) k) (fmul (Fin 2) d)) k_line d_line
         in Inr (k_line, d_line, j_line))))"


section \<open>The hand-written indicators: \<open>technical_old.py\<close>\<close>

text \<open>
  These work on Python lists of floats, with \<open>None\<close> for "not available". A period is
  a window length, a natural number. \<open>round(x, n)\<close> rounds to \<open>n\<close> decimals, a tie to
  the even neighbour.
\<close>

definition round_half_even :: "real \<Rightarrow> int" where
  "round_half_even y =
     (let f = \<lfloor>y\<rfloor>; r = y - real_of_int f
      in if r < 1 / 2 then f else if r > 1 / 2 then f + 1 else if even f then f else f + 1)"

definition py_round :: "real \<Rightarrow> nat \<Rightarrow> real" where
  "py_round x n = real_of_int (round_half_even (x * 10 ^ n)) / 10 ^ n"

record kline =
  k_date :: string
  k_open :: real
  k_high :: real
  k_low :: real
  k_close :: real
  k_volume :: int

fun calc_ema_from :: "real \<Rightarrow> real \<Rightarrow> real list \<Rightarrow> real list" where
  "calc_ema_from k prev [] = []"
| "calc_ema_from k prev (v # vs) =
     (let e = py_round (prev * (1 - k) + v * k) 4 in e # calc_ema_from k e vs)"

definition calc_ema :: "real list \<Rightarrow> nat \<Rightarrow> real list" where
  "calc_ema values period =
     (case values of
        [] \<Rightarrow> []
      | v # vs \<Rightarrow> (let k = 2 / (real period + 1) in v # calc_ema_from k v vs))"

definition calc_macd :: "real list \<Rightarrow> nat \<Rightarrow> nat \<Rightarrow> nat \<Rightarrow> real list \<times> real list \<times> real list" where
  "calc_macd closes fast slow signal =
     (let ema_fast = calc_ema closes fast;
          ema_slow = calc_ema closes slow;
          dif = map2 (\<lambda>f s. py_round (f - s) 4) ema_fast ema_slow;
          dea = calc_ema dif signal;
          macd = map2 (\<lambda>d e. py_round ((d - e) * 2) 4) dif dea
      in (dif, dea, macd))"

text \<open>
  \<open>calc_kdj\<close>. \<open>kdj_window\<close> is the slice \<open>klines[max(0, i - n + 1) : i + 1]\<close>,
  \<open>window_high\<close> and \<open>window_low\<close> are \<open>hn\<close> and \<open>ln\<close>; the maximum of an empty
  slice raises \<open>ValueError\<close> and a zero smoothing period divides by zero.
  \<open>calc_kdj_from\<close> is the loop, with the running \<open>k\<close> and \<open>d\<close> as state.
\<close>

definition kdj_window :: "kline list \<Rightarrow> nat \<Rightarrow> nat \<Rightarrow> kline list" where
  "kdj_window klines n i = (let start = nat (max 0 (int i - int n + 1)) in drop start (take (i + 1) klines))"

definition window_high :: "kline list \<Rightarrow> nat \<Rightarrow> nat \<Rightarrow> real" where
  "window_high klines n i =
     (let highs = map k_high (kdj_window klines n i) in fold max (tl highs) (hd highs))"

definition window_low :: "kline list \<Rightarrow> nat \<Rightarrow> nat \<Rightarrow> real" where
  "window_low klines n i =
     (let lows = map k_low (kdj_window klines n i) in fold min (tl lows) (hd lows))"

definition calc_rsv :: "kline list \<Rightarrow> nat \<Rightarrow> nat \<Rightarrow> error + real" where
  "calc_rsv klines n i =
     (if kdj_window klines n i = [] then Inl ValueError
      else
        let hn = window_high klines n i;
            ln = window_low klines n i;
            c = k_close (klines ! i)
        in Inr (if hn \<noteq> ln then (c - ln) / (hn - ln) * 100 else 50))"

definition smooth :: "nat \<Rightarrow> real \<Rightarrow> real \<Rightarrow> error + real" where
  "smooth m prev new =
     (if m = 0 then Inl ZeroDivisionError
      else Inr (py_round ((real m - 1) / real m * prev + 1 / real m * new) 2))"

fun calc_kdj_from ::
  "kline list \<Rightarrow> nat \<Rightarrow> nat \<Rightarrow> nat \<Rightarrow> real \<Rightarrow> real \<Rightarrow> nat list
    \<Rightarrow> error + real list \<times> real list \<times> real list" where
  "calc_kdj_from klines n m1 m2 k d [] = Inr ([], [], [])"
| "calc_kdj_from klines n m1 m2 k d (i # is) =
     ebind (calc_rsv klines n i) (\<lambda>rsv.
     ebind (smooth m1 k rsv) (\<lambda>k'.
     ebind (smooth m2 d k') (\<lambda>d'.
       let j = py_round (3 * k' - 2 * d') 2 in
       ebind (calc_kdj_from klines n m1 m2 k' d' is) (\<lambda>(k_vals, d_vals, j_vals).
         Inr (k' # k_vals, d' # d_vals, j # j_vals)))))"

definition calc_kdj :: "kline list \<Rightarrow> nat \<Rightarrow> nat \<Rightarrow> nat \<Rightarrow> error + real list \<times> real list \<times> real list" where
  "calc_kdj klines n m1 m2 = calc_kdj_from klines n m1 m2 50 50 [0..<length klines]"

text \<open>
  \<open>calc_rsi\<close>. \<open>rsi_value\<close> is the expression appended to the result; \<open>calc_rsi_from\<close>
  is the second loop, with the two averages and the previous close as state.
\<close>

definition rsi_value :: "real \<Rightarrow> real \<Rightarrow> error + real" where
  "rsi_value avg_gain avg_loss =
     (let rs = (if avg_loss \<noteq> 0 then avg_gain / avg_loss else 100)
      in if 1 + rs = 0 then Inl ZeroDivisionError
         else Inr (py_round (100 - 100 / (1 + rs)) 2))"

fun calc_rsi_from :: "nat \<Rightarrow> real \<Rightarrow> real \<Rightarrow> real \<Rightarrow> real list \<Rightarrow> error + real option list" where
  "calc_rsi_from period avg_gain avg_loss prev [] = Inr []"
| "calc_rsi_from period avg_gain avg_loss prev (c # cs) =
     (let diff = c - prev;
          avg_gain' = (avg_gain * (real period - 1) + max diff 0) / real period;
          avg_loss' = (avg_loss * (real period - 1) + max (- diff) 0) / real period
      in ebind (rsi_value avg_gain' avg_loss') (\<lambda>v.
         ebind (calc_rsi_from period avg_gain' avg_loss' c cs) (\<lambda>rest. Inr (Some v # rest))))"

definition calc_rsi :: "real list \<Rightarrow> nat \<Rightarrow> error + real option list" where
  "calc_rsi closes period =
     (if length closes < period + 1 then Inr (replicate (length closes) None)
      else
        let gains = map (\<lambda>i. max (closes ! i - closes ! (i - 1)) 0) [1..<period + 1];
            losses = map (\<lambda>i. max (- (closes ! i - closes ! (i - 1))) 0) [1..<period + 1]
        in if period = 0 then Inl ZeroDivisionError
           else
             let avg_gain = sum_list gains / real period;
                 avg_loss = sum_list losses / real period
             in ebind (rsi_value avg_gain avg_loss) (\<lambda>v.
                ebind (calc_rsi_from period avg_gain avg_loss (closes ! period) (drop (period + 1) closes))
                  (\<lambda>rest. Inr (replicate period None @ Some v # rest))))"

section \<open>Predicates used in the statements and proofs\<close>

text \<open>A float that is a finite non-negative number, and a series of \<open>n\<close> averages
  that is NaN before position \<open>w - 1\<close> and finite and non-negative from there on.\<close>

definition fin_nn :: "pyfloat \<Rightarrow> bool" where
  "fin_nn x = (\<exists>v. x = Fin v \<and> 0 \<le> v)"

definition avg_ok :: "nat \<Rightarrow> nat \<Rightarrow> pyfloat list \<Rightarrow> bool" where
  "avg_ok w n xs = (length xs = n \<and> (\<forall>j < n. if j + 1 < w then xs ! j = NaN else fin_nn (xs ! j)))"

section \<open>Concrete indicator inputs\<close>

text \<open>
  Twelve bars with low \<open>i\<close> and high \<open>i + 2\<close> that close at the low on even days and at
  the high on odd days, as three series and as k-lines.
\<close>

definition kdj_low :: "real list" where
  "kdj_low = map real [0..<12]"

definition kdj_high :: "real list" where
  "kdj_high = map (\<lambda>i. real i + 2) [0..<12]"

definition kdj_close :: "real list" where
  "kdj_close = map (\<lambda>i. if even i then real i else real i + 2) [0..<12]"

definition kdj_klines :: "kline list" where
  "kdj_klines =
     map (\<lambda>i. \<lparr>k_date = [], k_open = real i, k_high = real i + 2, k_low = real i,
                k_close = (if even i then real i else real i + 2), k_volume = 0\<rparr>) [0..<12]"

text \<open>
  One row of the hand-written KDJ: from the \<open>k\<close> and \<open>d\<close> of the bar before, the RSV of
  bar \<open>i\<close> (50 on a window whose highest high is its lowest low) gives \<open>k\<close>, \<open>d\<close> and \<open>j\<close>.
\<close>

definition kdj_row :: "kline list \<Rightarrow> nat \<Rightarrow> nat \<Rightarrow> nat \<Rightarrow> real \<Rightarrow> real \<Rightarrow> nat \<Rightarrow> real \<Rightarrow> real \<Rightarrow> real \<Rightarrow> bool" where
  "kdj_row klines n m1 m2 k_prev d_prev i k d j =
     (\<exists>rsv. calc_rsv klines n i = Inr rsv \<and>
        (window_high klines n i = window_low klines n i \<longrightarrow> rsv = 50) \<and>
        k = py_round ((real m1 - 1) / real m1 * k_prev + 1 / real m1 * rsv) 2 \<and>
        d = py_round ((real m2 - 1) / real m2 * d_prev + 1 / real m2 * k) 2 \<and>
        j = 3 * k - 2 * d)"

text \<open>
  The simple moving average of the last \<open>w\<close> entries of a series at position \<open>i\<close>: the
  entry itself for \<open>w \<le> 1\<close>, NaN before a full window or when an entry of the window is
  not finite.
\<close>

definition sma_at :: "nat \<Rightarrow> pyfloat list \<Rightarrow> nat \<Rightarrow> pyfloat" where
  "sma_at w xs i =
     (if w \<le> 1 then xs ! i
      else if i + 1 < w then NaN
      else case finite_values (window_at w xs i) of None \<Rightarrow> NaN | Some vs \<Rightarrow> Fin (mean vs))"

section \<open>The signal reliability scanner: \<open>backtest.py\<close>\<close>

text \<open>
  \<open>backtest_stock\<close> scans the k-lines from day 30 on. \<open>detect_signals_for_day\<close> is a
  parameter \<open>detect\<close> of the model: it calls \<open>technical.calc_ma\<close>, \<open>technical.calc_macd\<close>,
  \<ellipsis>, which \<open>technical.py\<close> no longer defines (they are in \<open>technical_old.py\<close>), and
  none of the statements below depends on which signals fire. It returns the list of
  (name, type, strength) of the day or raises. The k-lines are the input (the download is
  outside the model), the error dict returned for fewer than 50 k-lines is the value
  \<open>DataError\<close>, and the key \<open>"5d"\<close> of a holding period is the number 5. Of the result
  the dict \<open>signals\<close> is modelled.
\<close>

record period_stats =
  wins :: nat
  total :: nat
  returns :: "real list"

record period_summary = period_stats +
  win_rate :: real
  avg_return :: real
  max_profit :: real
  max_loss :: real

record signal_stat =
  s_type :: string
  s_count :: nat
  s_periods :: "(nat \<times> period_stats) list"

record signal_summary =
  ss_type :: string
  ss_count :: nat
  ss_periods :: "(nat \<times> period_summary) list"

type_synonym firing = "string \<times> string \<times> nat"

definition default_periods :: "nat list" where
  "default_periods = [1, 3, 5, 10, 20]"

fun calculate_returns :: "kline list \<Rightarrow> nat \<Rightarrow> nat list \<Rightarrow> error + (nat \<times> real option) list" where
  "calculate_returns klines trigger_idx [] = Inr []"
| "calculate_returns klines trigger_idx (period # periods) =
     (let trigger_price = k_close (klines ! trigger_idx);
          future_idx = trigger_idx + period
      in if future_idx < length klines then
           (let future_price = k_close (klines ! future_idx) in
            if trigger_price = 0 then Inl ZeroDivisionError
            else
              let return_rate = (future_price - trigger_price) / trigger_price
              in ebind (calculate_returns klines trigger_idx periods)
                   (\<lambda>returns. Inr ((period, Some return_rate) # returns)))
         else ebind (calculate_returns klines trigger_idx periods)
                (\<lambda>returns. Inr ((period, None) # returns)))"

definition new_signal_stat :: "string \<Rightarrow> signal_stat" where
  "new_signal_stat signal_type =
     \<lparr>s_type = signal_type, s_count = 0,
      s_periods = map (\<lambda>h. (h, \<lparr>wins = 0, total = 0, returns = []\<rparr>)) [1, 3, 5, 10, 20]\<rparr>"

definition update_period :: "string \<Rightarrow> period_stats \<Rightarrow> real \<Rightarrow> period_stats" where
  "update_period signal_type stats return_rate =
     (let stats1 = stats\<lparr>total := total stats + 1\<rparr>;
          stats2 = stats1\<lparr>returns := returns stats1 @ [return_rate]\<rparr>
      in if signal_type = ''buy'' then
           (if return_rate > 0 then stats2\<lparr>wins := wins stats2 + 1\<rparr> else stats2)
         else
           (if return_rate < 0 then stats2\<lparr>wins := wins stats2 + 1\<rparr> else stats2))"

fun apply_returns ::
  "string \<Rightarrow> (nat \<times> period_stats) list \<Rightarrow> (nat \<times> real option) list \<Rightarrow> error + (nat \<times> period_stats) list" where
  "apply_returns signal_type periods [] = Inr periods"
| "apply_returns signal_type periods ((period, None) # rest) = apply_returns signal_type periods rest"
| "apply_returns signal_type periods ((period, Some return_rate) # rest) =
     (case map_of periods period of
        None \<Rightarrow> Inl KeyError
      | Some stats \<Rightarrow>
          apply_returns signal_type
            (AList.update period (update_period signal_type stats return_rate) periods) rest)"

text \<open>Python's \<open>a in b\<close> on strings.\<close>

fun contains :: "string \<Rightarrow> string \<Rightarrow> bool" where
  "contains s [] = (s = [])"
| "contains s (c # cs) = (take (length s) (c # cs) = s \<or> contains s cs)"

definition filtered_out :: "string option \<Rightarrow> string \<Rightarrow> bool" where
  "filtered_out signal_filter signal_name =
     (case signal_filter of
        None \<Rightarrow> False
      | Some f \<Rightarrow> f \<noteq> [] \<and> \<not> contains f signal_name)"

definition record_firing ::
  "kline list \<Rightarrow> (string \<times> signal_stat) list \<Rightarrow> nat \<Rightarrow> firing \<Rightarrow> error + (string \<times> signal_stat) list" where
  "record_firing klines signal_stats day_idx sig =
     (case sig of (signal_name, signal_type, strength) \<Rightarrow>
        let stats1 = (if map_of signal_stats signal_name = None
                      then AList.update signal_name (new_signal_stat signal_type) signal_stats
                      else signal_stats)
        in case map_of stats1 signal_name of
             None \<Rightarrow> Inl KeyError
           | Some entry \<Rightarrow>
               let entry1 = entry\<lparr>s_count := s_count entry + 1\<rparr> in
               ebind (calculate_returns klines day_idx default_periods) (\<lambda>returns.
               ebind (apply_returns signal_type (s_periods entry1) returns) (\<lambda>periods.
                 Inr (AList.update signal_name (entry1\<lparr>s_periods := periods\<rparr>) stats1))))"

fun process_signals ::
  "kline list \<Rightarrow> string option \<Rightarrow> (string \<times> signal_stat) list \<Rightarrow> nat \<Rightarrow> firing list
    \<Rightarrow> error + (string \<times> signal_stat) list" where
  "process_signals klines signal_filter signal_stats day_idx [] = Inr signal_stats"
| "process_signals klines signal_filter signal_stats day_idx (sig # rest) =
     (if filtered_out signal_filter (fst sig)
      then process_signals klines signal_filter signal_stats day_idx rest
      else ebind (record_firing klines signal_stats day_idx sig) (\<lambda>signal_stats'.
             process_signals klines signal_filter signal_stats' day_idx rest))"

fun scan_days ::
  "(kline list \<Rightarrow> nat \<Rightarrow> error + firing list) \<Rightarrow> kline list \<Rightarrow> string option
    \<Rightarrow> (string \<times> signal_stat) list \<Rightarrow> nat list \<Rightarrow> error + (string \<times> signal_stat) list" where
  "scan_days detect klines signal_filter signal_stats [] = Inr signal_stats"
| "scan_days detect klines signal_filter signal_stats (day_idx # days) =
     ebind (detect klines day_idx) (\<lambda>signals.
     ebind (process_signals klines signal_filter signal_stats day_idx signals) (\<lambda>signal_stats'.
       scan_days detect klines signal_filter signal_stats' days))"

definition summarise_period :: "period_stats \<Rightarrow> period_summary" where
  "summarise_period p =
     (if total p > 0 then
        \<lparr>wins = wins p, total = total p, returns = returns p,
         win_rate = real (wins p) / real (total p),
         avg_return = sum_list (returns p) / real (length (returns p)),
         max_profit = (if returns p \<noteq> [] then fold max (tl (returns p)) (hd (returns p)) else 0),
         max_loss = (if returns p \<noteq> [] then fold min (tl (returns p)) (hd (returns p)) else 0)\<rparr>
      else
        \<lparr>wins = wins p, total = total p, returns = returns p,
         win_rate = 0, avg_return = 0, max_profit = 0, max_loss = 0\<rparr>)"

definition summarise :: "signal_stat \<Rightarrow> signal_summary" where
  "summarise e =
     \<lparr>ss_type = s_type e, ss_count = s_count e,
      ss_periods = map (\<lambda>(h, p). (h, summarise_period p)) (s_periods e)\<rparr>"

definition backtest_stock ::
  "(kline list \<Rightarrow> nat \<Rightarrow> error + firing list) \<Rightarrow> kline list \<Rightarrow> string option
    \<Rightarrow> error + (string \<times> signal_summary) list" where
  "backtest_stock detect klines signal_filter =
     (if length klines < 50 then Inl DataError
      else ebind (scan_days detect klines signal_filter [] [30..<length klines])
             (\<lambda>signal_stats. Inr (map (\<lambda>(name, e). (name, summarise e)) signal_stats)))"

text \<open>
  The words of the claim: the firings of a scan in the order of the scan, as (bar, name,
  type); the forward return of bar \<open>i\<close> over \<open>h\<close> bars; what counts as a win; and the
  firings of one name that are resolved at the horizon \<open>h\<close> (\<open>i + h\<close> is in range).
\<close>

definition fires ::
  "(kline list \<Rightarrow> nat \<Rightarrow> error + firing list) \<Rightarrow> kline list \<Rightarrow> string option
    \<Rightarrow> nat list \<Rightarrow> (nat \<times> string \<times> string) list" where
  "fires detect klines signal_filter days =
     concat (map (\<lambda>i. case detect klines i of
                        Inl e \<Rightarrow> []
                      | Inr signals \<Rightarrow>
                          map (\<lambda>sig. (i, fst sig, fst (snd sig)))
                            (filter (\<lambda>sig. \<not> filtered_out signal_filter (fst sig)) signals)) days)"

definition forward_return :: "kline list \<Rightarrow> nat \<Rightarrow> nat \<Rightarrow> real" where
  "forward_return klines i h = (k_close (klines ! (i + h)) - k_close (klines ! i)) / k_close (klines ! i)"

definition is_win :: "string \<Rightarrow> real \<Rightarrow> bool" where
  "is_win signal_type return_rate = (if signal_type = ''buy'' then 0 < return_rate else return_rate < 0)"

definition resolved :: "kline list \<Rightarrow> string \<Rightarrow> nat \<Rightarrow> (nat \<times> string \<times> string) list \<Rightarrow> (nat \<times> string \<times> string) list" where
  "resolved klines name h fs = filter (\<lambda>f. fst (snd f) = name \<and> fst f + h < length klines) fs"

text \<open>
  A scan for the scenario: sixty bars closing at \<open>100 + i\<close> and a detector on which
  \<open>MACD_golden_cross\<close> (a buy signal of strength 7) fires on the bars 30, 35 and 40.
\<close>

definition rising_klines :: "kline list" where
  "rising_klines =
     map (\<lambda>i. \<lparr>k_date = [], k_open = 100 + real i, k_high = 100 + real i, k_low = 100 + real i,
                k_close = 100 + real i, k_volume = 0\<rparr>) [0..<60]"

definition three_crosses :: "kline list \<Rightarrow> nat \<Rightarrow> error + firing list" where
  "three_crosses klines day_idx =
     Inr (if day_idx \<in> {30, 35, 40} then [(''MACD_golden_cross'', ''buy'', 7)] else [])"

text \<open>
  The invariant of the scan: the stored counters of every name are the tallies of the
  firings \<open>fs\<close> recorded so far, and the names with an entry are the names that fired.
\<close>

definition period_tallied :: "kline list \<Rightarrow> string \<Rightarrow> (nat \<times> string \<times> string) list \<Rightarrow> nat \<Rightarrow> period_stats \<Rightarrow> bool" where
  "period_tallied klines name fs h p =
     (total p = length (resolved klines name h fs) \<and>
      wins p = length (filter (\<lambda>f. is_win (snd (snd f)) (forward_return klines (fst f) h))
                        (resolved klines name h fs)) \<and>
      returns p = map (\<lambda>f. forward_return klines (fst f) h) (resolved klines name h fs))"

definition entry_tallied :: "kline list \<Rightarrow> string \<Rightarrow> (nat \<times> string \<times> string) list \<Rightarrow> signal_stat \<Rightarrow> bool" where
  "entry_tallied klines name fs e =
     (s_count e = length (filter (\<lambda>f. fst (snd f) = name) fs) \<and>
      map fst (s_periods e) = default_periods \<and>
      (\<forall>h p. map_of (s_periods e) h = Some p \<longrightarrow> period_tallied klines name fs h p))"

definition tallied :: "kline list \<Rightarrow> (string \<times> signal_stat) list \<Rightarrow> (nat \<times> string \<times> string) list \<Rightarrow> bool" where
  "tallied klines st fs =
     (fst ` set st = (\<lambda>f. fst (snd f)) ` set fs \<and>
      (\<forall>name e. map_of st name = Some e \<longrightarrow> entry_tallied klines name fs e))"

(*DEFS-END*)


section \<open>Properties of the backtest engine\<close>

subsection \<open>Position sizing on a buy signal\<close>

lemma held_buy_new:
  "map_of (positions pf) ''close'' = None \<Longrightarrow> q * p \<le> cash pf \<Longrightarrow>
   \<exists>pf'. buy pf ''close'' q p d = Inr (True, pf') \<and> held pf' = held pf + q"
  by (simp add: buy_def held_def Let_def update_conv')

lemma held_buy_existing:
  "map_of (positions pf) ''close'' = Some pos \<Longrightarrow> q * p \<le> cash pf \<Longrightarrow> quantity pos + q \<noteq> 0 \<Longrightarrow>
   \<exists>pf'. buy pf ''close'' q p d = Inr (True, pf') \<and> held pf' = held pf + q"
  by (simp add: buy_def held_def Let_def update_conv')

lemma held_buy:
  assumes "0 \<le> held pf" and "0 < q" and "q * p \<le> cash pf"
  shows "\<exists>pf'. buy pf ''close'' q p d = Inr (True, pf') \<and> held pf' = held pf + q"
proof (cases "map_of (positions pf) ''close''")
  case None
  then show ?thesis using assms held_buy_new by blast
next
  case (Some pos)
  with assms have "quantity pos + q \<noteq> 0" by (simp add: held_def)
  with Some assms show ?thesis using held_buy_existing by blast
qed

text \<open>
  C1 (amended). On a bar with a buy signal and a non-zero close, for a portfolio that holds
  no negative quantity, the loop body never raises and records the value before the trade.
  The number of shares is \<open>int(cash * position_size / close)\<close>: the division is by the
  close alone, not by \<open>close * (1 + transaction_cost)\<close>. The buy is executed exactly when
  that number is positive, \<open>shares * close * (1 + transaction_cost) \<le> cash\<close> (the test of
  the engine) and \<open>shares * close \<le> cash\<close> (the test of \<open>Portfolio.buy\<close>); then the
  holding grows by exactly that number of shares, and otherwise the portfolio is unchanged.
\<close>

theorem buy_signal_share_count:
  assumes "b_close b \<noteq> 0" and "0 \<le> held pf"
  shows "\<exists>pf'. process_bar ps tc pf b 1 = Inr (get_total_value pf [''close'' \<mapsto> b_close b], pf') \<and>
     (if 0 < py_int (cash pf * ps / b_close b)
         \<and> real_of_int (py_int (cash pf * ps / b_close b)) * (b_close b * (1 + tc)) \<le> cash pf
         \<and> real_of_int (py_int (cash pf * ps / b_close b)) * b_close b \<le> cash pf
      then held pf' = held pf + real_of_int (py_int (cash pf * ps / b_close b))
      else pf' = pf)"
proof -
  let ?n = "py_int (cash pf * ps / b_close b)"
  show ?thesis
  proof (cases "0 < ?n \<and> real_of_int ?n * (b_close b * (1 + tc)) \<le> cash pf")
    case False
    then show ?thesis using assms by (auto simp add: process_bar_def Let_def)
  next
    case exec: True
    show ?thesis
    proof (cases "real_of_int ?n * b_close b \<le> cash pf")
      case True
      with exec assms held_buy [of pf "real_of_int ?n" "b_close b" "b_date b"]
      show ?thesis by (auto simp add: process_bar_def Let_def)
    next
      case False
      then have "buy pf ''close'' (real_of_int ?n) (b_close b) (b_date b) = Inr (False, pf)"
        by (simp add: buy_def Let_def)
      with exec False assms show ?thesis by (auto simp add: process_bar_def Let_def)
    qed
  qed
qed

text \<open>
  The scenario of the spec as an instance: capital 100000, position size 0.1, transaction
  cost 0.001 and a buy signal at close 100 buy \<open>int(10000 / 100) = 100\<close> shares.
\<close>

theorem buy_signal_share_count_witness:
  "b_close scenario_bar \<noteq> 0 \<and> 0 \<le> held (Portfolio 100000) \<and>
   (\<exists>pf'. process_bar (1/10) (1/1000) (Portfolio 100000) scenario_bar 1 = Inr (100000, pf') \<and> held pf' = 100)"
proof -
  have a: "b_close scenario_bar \<noteq> 0" by (simp add: scenario_bar_def)
  have b: "0 \<le> held (Portfolio 100000)" by (simp add: held_def Portfolio_def)
  have n: "py_int (cash (Portfolio 100000) * (1/10) / b_close scenario_bar) = 100"
    by (simp add: py_int_def Portfolio_def scenario_bar_def)
  have v: "get_total_value (Portfolio 100000) [''close'' \<mapsto> b_close scenario_bar] = 100000"
    by (simp add: get_total_value_def Portfolio_def)
  from buy_signal_share_count [OF a b, of "1/10" "1/1000"] a b show ?thesis
    unfolding n v by (simp add: Portfolio_def scenario_bar_def held_def)
qed

text \<open>
  The claim as stated fails on its own scenario: the engine buys 100 shares, not
  \<open>floor(10000 / 100.1) = 99\<close>, and the cash left is 90000.
\<close>

theorem buy_signal_scenario_counterexample:
  "map_sum id (held \<circ> snd) (process_bar (1/10) (1/1000) (Portfolio 100000) scenario_bar 1) = Inr 100 \<and>
   map_sum id (held \<circ> snd) (process_bar (1/10) (1/1000) (Portfolio 100000) scenario_bar 1)
     \<noteq> Inr (real_of_int \<lfloor>(100000::real) * (1/10) / (100 * (1 + 1/1000))\<rfloor>) \<and>
   map_sum id (cash \<circ> snd) (process_bar (1/10) (1/1000) (Portfolio 100000) scenario_bar 1) = Inr 90000"
  by (simp add: process_bar_def buy_def Let_def py_int_def Portfolio_def scenario_bar_def
      get_total_value_def held_def)

subsection \<open>Transaction fees\<close>

text \<open>
  C2 (the code at the failing input). Capital 100000, position size 0.1, transaction cost
  0.001, three bars closing at 100 with the signals buy, sell, hold. The recorded portfolio
  values are 100000 at every bar and the final cash is 100000: the buy debits
  \<open>100 * 100\<close> and the sell credits \<open>100 * 100\<close>, so no fee is ever charged, where
  the claim has the values 100000, 99990, 99980.
\<close>

theorem round_trip_charges_no_fee:
  "map_sum id (map_prod id cash)
     (run_backtest 100000 [flat_bar 0, flat_bar 1, flat_bar 2] [(0, 1), (1, - 1), (2, 0)] (1/10) (1/1000))
   = Inr ([100000, 100000, 100000], 100000)"
  by (simp add: run_backtest_def process_bar_def buy_def sell_def Let_def py_int_def Portfolio_def
      flat_bar_def get_total_value_def)

subsection \<open>Rejected orders\<close>

text \<open>
  C9. A buy whose cost exceeds the cash, a sell of a symbol without a position and a sell
  of more than the held quantity return \<open>False\<close>, raise nothing and leave the portfolio
  (cash, positions and history) as it was, so that the value of the portfolio is the same
  afterwards.
\<close>

theorem rejected_orders_change_nothing:
  "(cash pf < qty * price \<longrightarrow> buy pf symb qty price date = Inr (False, pf)) \<and>
   (map_of (positions pf) symb = None \<longrightarrow> sell pf symb qty price date = (False, pf)) \<and>
   (\<forall>pos. map_of (positions pf) symb = Some pos \<and> quantity pos < qty \<longrightarrow>
      sell pf symb qty price date = (False, pf))"
  by (simp add: buy_def sell_def Let_def)

lemma one_share_eq: "one_share = \<lparr>initial_capital = 1000, cash = 900,
   positions = [(''close'', \<lparr>symbol = ''close'', quantity = 1, entry_price = 100, entry_date = 0,
                 exit_price = None, exit_date = None, position_type = ''long''\<rparr>)],
   history = [\<lparr>t_date = 0, t_symbol = ''close'', t_action = ''BUY'', t_quantity = 1,
                  t_price = 100, t_amount = 100, t_cash_after = 900\<rparr>], current_date = None\<rparr>"
  by (simp add: one_share_def buy_def Portfolio_def Let_def)

theorem rejected_orders_change_nothing_witness:
  "cash one_share < 10 * 100 \<and> buy one_share ''close'' 10 100 1 = Inr (False, one_share) \<and>
   map_of (positions one_share) ''open'' = None \<and> sell one_share ''open'' 1 100 1 = (False, one_share) \<and>
   map_of (positions one_share) ''close'' \<noteq> None \<and>
   quantity (the (map_of (positions one_share) ''close'')) < 2 \<and>
   sell one_share ''close'' 2 100 1 = (False, one_share)"
proof -
  have c: "cash one_share < 10 * 100" by (simp add: one_share_eq)
  have n: "map_of (positions one_share) ''open'' = None" by (simp add: one_share_eq)
  obtain pos where p: "map_of (positions one_share) ''close'' = Some pos" and q: "quantity pos < 2"
    by (simp add: one_share_eq)
  from rejected_orders_change_nothing [of one_share 10 100 "''close''" 1] c
  have 1: "buy one_share ''close'' 10 100 1 = Inr (False, one_share)" by blast
  from rejected_orders_change_nothing [of one_share 1 100 "''open''" 1] n
  have 2: "sell one_share ''open'' 1 100 1 = (False, one_share)" by blast
  from rejected_orders_change_nothing [of one_share 2 100 "''close''" 1] p q
  have 3: "sell one_share ''close'' 2 100 1 = (False, one_share)" by blast
  from c n p q 1 2 3 show ?thesis by simp
qed


section \<open>Properties of \<open>max_drawdown\<close>\<close>

lemma drawdown_at_pos: "0 < m \<Longrightarrow> drawdown_at v m = Fin ((v - m) / m)"
  by (simp add: drawdown_at_def fsub_def)

lemma running_drawdowns:
  assumes "0 < m"
  shows "(\<forall>d \<in> set (map2 drawdown_at xs (running_max_from m xs)). \<exists>r. d = Fin r \<and> r \<le> 0) \<and>
         ((\<forall>d \<in> set (map2 drawdown_at xs (running_max_from m xs)). d = Fin 0)
            \<longleftrightarrow> sorted xs \<and> (\<forall>x \<in> set xs. m \<le> x))"
  using assms
proof (induction xs arbitrary: m)
  case Nil
  then show ?case by simp
next
  case (Cons x xs)
  let ?m = "max m x"
  from Cons.prems have pos: "0 < ?m" by simp
  have hd_eq: "drawdown_at x ?m = Fin ((x - ?m) / ?m)"
    using pos by (rule drawdown_at_pos)
  have hd_le: "(x - ?m) / ?m \<le> 0"
    using pos by (simp add: divide_le_0_iff)
  have hd_zero: "(x - ?m) / ?m = 0 \<longleftrightarrow> m \<le> x"
    using pos by auto
  note IH = Cons.IH [OF pos]
  have bound: "m \<le> x \<Longrightarrow> (\<forall>y \<in> set xs. ?m \<le> y) \<longleftrightarrow> (\<forall>y \<in> set xs. x \<le> y)"
    by (simp add: max_def)
  show ?case
  proof (intro conjI)
    show "\<forall>d \<in> set (map2 drawdown_at (x # xs) (running_max_from m (x # xs))). \<exists>r. d = Fin r \<and> r \<le> 0"
      using IH hd_eq hd_le by simp
    show "(\<forall>d \<in> set (map2 drawdown_at (x # xs) (running_max_from m (x # xs))). d = Fin 0)
            \<longleftrightarrow> sorted (x # xs) \<and> (\<forall>y \<in> set (x # xs). m \<le> y)"
    proof (cases "m \<le> x")
      case True
      then have mx: "?m = x" by (simp add: max_def)
      have tail: "(\<forall>d \<in> set (map2 drawdown_at xs (running_max_from x xs)). d = Fin 0)
                    \<longleftrightarrow> sorted xs \<and> (\<forall>y \<in> set xs. x \<le> y)"
        using IH unfolding mx by blast
      have hd0: "drawdown_at x x = Fin 0"
        using hd_eq hd_zero True unfolding mx by simp
      have low: "(\<forall>y \<in> set xs. x \<le> y) \<Longrightarrow> (\<forall>y \<in> set xs. m \<le> y)"
        using True by (meson order_trans)
      have "(\<forall>d \<in> set (map2 drawdown_at (x # xs) (running_max_from m (x # xs))). d = Fin 0)
              \<longleftrightarrow> (\<forall>d \<in> set (map2 drawdown_at xs (running_max_from x xs)). d = Fin 0)"
        using hd0 by (simp add: mx)
      also have "\<dots> \<longleftrightarrow> sorted xs \<and> (\<forall>y \<in> set xs. x \<le> y)" by (rule tail)
      also have "\<dots> \<longleftrightarrow> sorted (x # xs) \<and> (\<forall>y \<in> set (x # xs). m \<le> y)"
        using True low by auto
      finally show ?thesis .
    next
      case False
      with hd_eq hd_zero show ?thesis by simp
    qed
  qed
qed

lemma series_min_nonpositive:
  assumes "xs \<noteq> []" and "\<forall>d \<in> set xs. \<exists>r. d = Fin r \<and> r \<le> 0"
  shows "\<exists>m. series_min xs = Fin m \<and> m \<le> 0 \<and> (m = 0 \<longleftrightarrow> (\<forall>d \<in> set xs. d = Fin 0))"
  using assms
proof (induction xs)
  case Nil
  then show ?case by simp
next
  case (Cons d ds)
  from Cons.prems obtain r where d: "d = Fin r" and r: "r \<le> 0" by auto
  show ?case
  proof (cases "ds = []")
    case True
    with d r show ?thesis by (simp add: series_min_def fmin2_def)
  next
    case False
    with Cons obtain m where m: "series_min ds = Fin m" "m \<le> 0"
      "m = 0 \<longleftrightarrow> (\<forall>d \<in> set ds. d = Fin 0)" by auto
    have "series_min (d # ds) = fmin2 d (series_min ds)"
      by (simp add: series_min_def)
    also have "\<dots> = Fin (min r m)"
      using d m(1) by (simp add: fmin2_def min_def)
    finally have eq: "series_min (d # ds) = Fin (min r m)" .
    have "min r m = 0 \<longleftrightarrow> r = 0 \<and> m = 0"
      using r m(2) by (auto simp add: min_def)
    with eq r m d show ?thesis by auto
  qed
qed

text \<open>
  C7 (amended). For a series that is empty or starts with a positive value (every running
  maximum is then positive), \<open>max_drawdown\<close> is a finite number, it is at most 0, and it
  is 0 exactly when the series is non-decreasing.
\<close>

theorem max_drawdown_nonpositive:
  assumes "portfolio_values = [] \<or> 0 < hd portfolio_values"
  shows "\<exists>m. max_drawdown portfolio_values = Fin m \<and> m \<le> 0 \<and>
           (m = 0 \<longleftrightarrow> sorted portfolio_values)"
proof (cases "length portfolio_values < 2")
  case True
  then have "sorted portfolio_values"
    by (cases portfolio_values) (auto simp add: Suc_less_eq2)
  with True show ?thesis by (simp add: max_drawdown_def)
next
  case False
  then obtain v vs where pv: "portfolio_values = v # vs" and vs: "vs \<noteq> []"
    by (cases portfolio_values) auto
  with assms have v: "0 < v" by simp
  let ?dd = "map2 drawdown_at vs (running_max_from v vs)"
  have md: "max_drawdown portfolio_values = series_min (Fin 0 # ?dd)"
    using False v pv by (simp add: max_drawdown_def Let_def drawdown_at_pos)
  from running_drawdowns [OF v, of vs]
  have le: "\<forall>d \<in> set ?dd. \<exists>r. d = Fin r \<and> r \<le> 0"
    and zero: "(\<forall>d \<in> set ?dd. d = Fin 0) \<longleftrightarrow> sorted vs \<and> (\<forall>x \<in> set vs. v \<le> x)"
    by blast+
  from le have "\<forall>d \<in> set (Fin 0 # ?dd). \<exists>r. d = Fin r \<and> r \<le> 0" by simp
  moreover have "Fin 0 # ?dd \<noteq> []" by simp
  ultimately have "\<exists>m. series_min (Fin 0 # ?dd) = Fin m \<and> m \<le> 0 \<and>
      (m = 0 \<longleftrightarrow> (\<forall>d \<in> set (Fin 0 # ?dd). d = Fin 0))"
    using series_min_nonpositive [of "Fin 0 # ?dd"] by blast
  then obtain m where m: "series_min (Fin 0 # ?dd) = Fin m" "m \<le> 0"
    and m0: "m = 0 \<longleftrightarrow> (\<forall>d \<in> set (Fin 0 # ?dd). d = Fin 0)" by blast
  have "(\<forall>d \<in> set (Fin 0 # ?dd). d = Fin 0) \<longleftrightarrow> (\<forall>d \<in> set ?dd. d = Fin 0)" by simp
  also have "\<dots> \<longleftrightarrow> sorted vs \<and> (\<forall>x \<in> set vs. v \<le> x)" by (rule zero)
  also have "\<dots> \<longleftrightarrow> sorted portfolio_values" by (auto simp add: pv)
  finally have "m = 0 \<longleftrightarrow> sorted portfolio_values" using m0 by blast
  with m md show ?thesis by simp
qed

text \<open>The example of the docstring: the drawdown from 110 to 90 is \<open>-2/11\<close>.\<close>

theorem max_drawdown_nonpositive_witness:
  "0 < hd [100, 110, 90, 95, 120 :: real] \<and>
   max_drawdown [100, 110, 90, 95, 120] = Fin (- (2 / 11)) \<and> \<not> sorted [100, 110, 90, 95, 120 :: real]"
proof -
  have h: "[100, 110, 90, 95, 120] = [] \<or> 0 < hd [100, 110, 90, 95, 120 :: real]" by simp
  have e: "max_drawdown [100, 110, 90, 95, 120] = Fin (- (2 / 11))"
    by (simp add: max_drawdown_def drawdown_at_def series_min_def fmin2_def fsub_def)
  from max_drawdown_nonpositive [OF h] e show ?thesis by auto
qed

text \<open>
  Without the positive start the claim fails: on the decreasing series \<open>-1, -2\<close> the
  running maximum is \<open>-1\<close>, the drawdowns are 0 and \<open>(-2 + 1) / (-1) = 1\<close>, and the
  result is 0.
\<close>

theorem max_drawdown_zero_counterexample:
  "max_drawdown [- 1, - 2] = Fin 0 \<and> \<not> sorted [- 1, - 2 :: real]"
  by (simp add: max_drawdown_def drawdown_at_def series_min_def fmin2_def fsub_def)


section \<open>Properties of \<open>generate_trading_signals\<close>\<close>

text \<open>
  C10. When \<open>generate_trading_signals\<close> returns, the strategy is one of the three known
  ones, there is one signal per row, every signal is \<open>-1\<close>, 0 or 1, the buy condition and
  the sell condition never hold on the same row, and the signal is 1 exactly on the rows
  of the buy condition and \<open>-1\<close> exactly on the rows of the sell condition.
\<close>

theorem trading_signals_well_defined:
  assumes "generate_trading_signals data strategy = Inr sigs"
  shows "\<exists>params. map_of strategy_params strategy = Some params \<and>
    length sigs = min (length (column data ''ma_signal''))
                   (min (length (column data ''rsi_signal'')) (length (column data ''composite_score''))) \<and>
    (\<forall>i < length sigs.
       sigs ! i \<in> {- 1, 0, 1} \<and>
       \<not> (buy_condition params (column data ''ma_signal'' ! i) (column data ''rsi_signal'' ! i)
              (column data ''composite_score'' ! i) \<and>
          sell_condition params (column data ''ma_signal'' ! i) (column data ''rsi_signal'' ! i)
              (column data ''composite_score'' ! i)) \<and>
       (sigs ! i = 1 \<longleftrightarrow>
          buy_condition params (column data ''ma_signal'' ! i) (column data ''rsi_signal'' ! i)
              (column data ''composite_score'' ! i)) \<and>
       (sigs ! i = - 1 \<longleftrightarrow>
          sell_condition params (column data ''ma_signal'' ! i) (column data ''rsi_signal'' ! i)
              (column data ''composite_score'' ! i)))"
proof -
  let ?ma = "column data ''ma_signal''" and ?rs = "column data ''rsi_signal''"
    and ?cs = "column data ''composite_score''"
  from assms obtain params where
    p: "map_of strategy_params strategy = Some params" and
    sigs: "sigs = map (final_signal params) (zip ?ma (zip ?rs ?cs))"
    by (auto simp add: generate_trading_signals_def Let_def split: option.splits if_splits)
  have len: "length sigs = min (length ?ma) (min (length ?rs) (length ?cs))"
    by (simp add: sigs)
  have row: "sigs ! i = final_signal params (?ma ! i, ?rs ! i, ?cs ! i)" if "i < length sigs" for i
    using that by (simp add: sigs)
  have excl: "\<not> (buy_condition params m r c \<and> sell_condition params m r c)" for m r c
    by (auto simp add: buy_condition_def sell_condition_def feq_def)
  have fs: "final_signal params (m, r, c) \<in> {- 1, 0, 1} \<and>
      (final_signal params (m, r, c) = 1 \<longleftrightarrow> buy_condition params m r c) \<and>
      (final_signal params (m, r, c) = - 1 \<longleftrightarrow> sell_condition params m r c)" for m r c
    using excl [of m r c] by (auto simp add: final_signal_def)
  have "sigs ! i \<in> {- 1, 0, 1} \<and>
       \<not> (buy_condition params (?ma ! i) (?rs ! i) (?cs ! i) \<and>
          sell_condition params (?ma ! i) (?rs ! i) (?cs ! i)) \<and>
       (sigs ! i = 1 \<longleftrightarrow> buy_condition params (?ma ! i) (?rs ! i) (?cs ! i)) \<and>
       (sigs ! i = - 1 \<longleftrightarrow> sell_condition params (?ma ! i) (?rs ! i) (?cs ! i))"
    if "i < length sigs" for i
    unfolding row [OF that] using excl [of "?ma ! i" "?rs ! i" "?cs ! i"] fs [of "?ma ! i" "?rs ! i" "?cs ! i"]
    by blast
  with p len show ?thesis by blast
qed

theorem trading_signals_well_defined_witness:
  "generate_trading_signals example_frame ''conservative'' = Inr [0, 1, 0, - 1, 0, 0] \<and>
   length [0, 1, 0, - 1, 0, 0 :: int] = 6 \<and>
   [0, 1, 0, - 1, 0, 0 :: int] ! 3 \<in> {- 1, 0, 1} \<and>
   sell_condition (6 / 10, - (6 / 10)) (column example_frame ''ma_signal'' ! 3)
     (column example_frame ''rsi_signal'' ! 3) (column example_frame ''composite_score'' ! 3)"
proof -
  have e: "generate_trading_signals example_frame ''conservative'' = Inr [0, 1, 0, - 1, 0, 0]"
    by (simp add: generate_trading_signals_def example_frame_def strategy_params_def column_def
        final_signal_def buy_condition_def sell_condition_def feq_def fge_def fle_def)
  from trading_signals_well_defined [OF e] obtain params where
    p: "map_of strategy_params ''conservative'' = Some params" and
    rows: "\<forall>i < length [0, 1, 0, - 1, 0, 0 :: int].
       [0, 1, 0, - 1, 0, 0 :: int] ! i \<in> {- 1, 0, 1} \<and>
       ([0, 1, 0, - 1, 0, 0 :: int] ! i = - 1 \<longleftrightarrow>
          sell_condition params (column example_frame ''ma_signal'' ! i) (column example_frame ''rsi_signal'' ! i)
              (column example_frame ''composite_score'' ! i))"
    by blast
  from p have params: "params = (6 / 10, - (6 / 10))" by (simp add: strategy_params_def)
  have "(3::nat) < length [0, 1, 0, - 1, 0, 0 :: int]" by simp
  with rows have "[0, 1, 0, - 1, 0, 0 :: int] ! 3 \<in> {- 1, 0, 1} \<and>
       ([0, 1, 0, - 1, 0, 0 :: int] ! 3 = - 1 \<longleftrightarrow>
          sell_condition params (column example_frame ''ma_signal'' ! 3) (column example_frame ''rsi_signal'' ! 3)
              (column example_frame ''composite_score'' ! 3))" by blast
  with e params show ?thesis by simp
qed


section \<open>Properties of the indicators\<close>

subsection \<open>MACD\<close>

lemma length_ewm_from: "length (ewm_from a w ow xs) = length xs"
  by (induction xs arbitrary: w ow) (simp_all add: Let_def)

lemma length_ewm_mean: "length (ewm_mean s xs) = length xs"
  by (cases xs) (simp_all add: length_ewm_from)

lemma ema_length: "ema xs w = Inr ys \<Longrightarrow> length ys = length xs"
  by (auto simp add: ema_def ebind_def validate_input_def length_ewm_mean split: if_splits)

text \<open>
  C5 (amended). For \<open>indicators.macd\<close>, whenever it returns, the three series have the
  length of the input and \<open>hist[i] = macd_line[i] - signal_line[i]\<close> at every index.
  For \<open>calc_macd\<close> of \<open>technical_old.py\<close> the histogram is twice the difference,
  rounded: \<open>hist[i] = round((dif[i] - dea[i]) * 2, 4)\<close>.
\<close>

theorem macd_histogram_identity:
  "(macd data fast slow signal = Inr (macd_line, signal_line, histogram) \<longrightarrow>
      length macd_line = length data \<and> length signal_line = length data \<and>
      length histogram = length data \<and>
      (\<forall>i < length data. histogram ! i = macd_line ! i - signal_line ! i)) \<and>
   (calc_macd closes fast' slow' signal' = (dif, dea, hist) \<longrightarrow>
      length hist = length closes \<and>
      (\<forall>i < length closes. hist ! i = py_round ((dif ! i - dea ! i) * 2) 4))"
proof (intro conjI impI)
  assume m: "macd data fast slow signal = Inr (macd_line, signal_line, histogram)"
  then obtain ema_fast ema_slow where
    f: "ema data fast = Inr ema_fast" and s: "ema data slow = Inr ema_slow" and
    ml: "macd_line = map2 (-) ema_fast ema_slow" and
    sl: "ema macd_line signal = Inr signal_line" and
    h: "histogram = map2 (-) macd_line signal_line"
    by (auto simp add: macd_def ebind_def validate_input_def Let_def split: if_splits sum.splits)
  from f s ml show l1: "length macd_line = length data" by (simp add: ema_length)
  from sl l1 show l2: "length signal_line = length data" by (simp add: ema_length)
  from h l1 l2 show "length histogram = length data" by simp
  from h l1 l2 show "\<forall>i < length data. histogram ! i = macd_line ! i - signal_line ! i" by simp
next
  assume c: "calc_macd closes fast' slow' signal' = (dif, dea, hist)"
  have le: "length (calc_ema_from k p vs) = length vs" for k p vs
    by (induction vs arbitrary: p) (simp_all add: Let_def)
  have lc: "length (calc_ema vs p) = length vs" for vs p
    by (cases vs) (simp_all add: calc_ema_def Let_def le)
  from c have d: "dif = map2 (\<lambda>f s. py_round (f - s) 4) (calc_ema closes fast') (calc_ema closes slow')"
    and e: "dea = calc_ema dif signal'"
    and h: "hist = map2 (\<lambda>d e. py_round ((d - e) * 2) 4) dif dea"
    unfolding calc_macd_def Let_def by auto
  from d have l1: "length dif = length closes" by (simp add: lc)
  from e l1 have l2: "length dea = length closes" by (simp add: lc)
  from h l1 l2 show "length hist = length closes" by simp
  from h l1 l2 show "\<forall>i < length closes. hist ! i = py_round ((dif ! i - dea ! i) * 2) 4" by simp
qed

theorem macd_histogram_identity_witness:
  "macd [1, 2, 4] 1 2 2 = Inr ([0, 1/4, 9/13], [0, 3/16, 363/676], [0, 1/16, 105/676]) \<and>
   [0, 1/16, 105/676 :: real] ! 2 = [0, 1/4, 9/13] ! 2 - [0, 3/16, 363/676] ! 2 \<and>
   calc_macd [1, 2] 12 26 9 = ([0, 797/10000], [0, 159/10000], [0, 319/2500]) \<and>
   [0, 319/2500 :: real] ! 1 = py_round (([0, 797/10000] ! 1 - [0, 159/10000] ! 1) * 2) 4"
proof -
  have a: "macd [1, 2, 4] 1 2 2 = Inr ([0, 1/4, 9/13], [0, 3/16, 363/676], [0, 1/16, 105/676])"
    by code_simp
  have b: "calc_macd [1, 2] 12 26 9 = ([0, 797/10000], [0, 159/10000], [0, 319/2500])"
    by code_simp
  note t = macd_histogram_identity [of "[1, 2, 4]" 1 2 2 "[0, 1/4, 9/13]" "[0, 3/16, 363/676]"
      "[0, 1/16, 105/676]" "[1, 2]" 12 26 9 "[0, 797/10000]" "[0, 159/10000]" "[0, 319/2500]"]
  from t [THEN conjunct1, THEN mp, OF a]
  have "\<forall>i < length [1, 2, 4 :: real]. [0, 1/16, 105/676 :: real] ! i = [0, 1/4, 9/13] ! i - [0, 3/16, 363/676] ! i"
    by blast
  moreover have "(2::nat) < length [1, 2, 4 :: real]" by simp
  ultimately have 1: "[0, 1/16, 105/676 :: real] ! 2 = [0, 1/4, 9/13] ! 2 - [0, 3/16, 363/676] ! 2"
    by blast
  from t [THEN conjunct2, THEN mp, OF b]
  have "\<forall>i < length [1, 2 :: real]. [0, 319/2500 :: real] ! i = py_round (([0, 797/10000] ! i - [0, 159/10000] ! i) * 2) 4"
    by blast
  moreover have "(1::nat) < length [1, 2 :: real]" by simp
  ultimately have 2: "[0, 319/2500 :: real] ! 1 = py_round (([0, 797/10000] ! 1 - [0, 159/10000] ! 1) * 2) 4"
    by blast
  from a b 1 2 show ?thesis by blast
qed

text \<open>
  The identity of the claim fails for \<open>calc_macd\<close>: on the closes 1, 2 the second
  histogram entry is 0.1276 where \<open>dif - dea = 0.0797 - 0.0159 = 0.0638\<close>.
\<close>

theorem calc_macd_histogram_counterexample:
  "calc_macd [1, 2] 12 26 9 = ([0, 797/10000], [0, 159/10000], [0, 319/2500]) \<and>
   (319/2500 :: real) \<noteq> 797/10000 - 159/10000"
  by code_simp



subsection \<open>RSI\<close>

lemma foldl_invariant:
  assumes "P s" and "\<And>s x. x \<in> set xs \<Longrightarrow> P s \<Longrightarrow> P (f s x)"
  shows "P (foldl f s xs)"
  using assms by (induction xs arbitrary: s) simp_all

lemma length_rolling [simp]: "length (rolling agg w xs) = length xs"
  by (simp add: rolling_def)

lemma rolling_nth:
  "i < length xs \<Longrightarrow> rolling agg w xs ! i =
     (if i + 1 < w then NaN
      else case finite_values (window_at w xs i) of None \<Rightarrow> NaN | Some vs \<Rightarrow> agg vs)"
  by (simp add: rolling_def)

lemma finite_values_all_fin:
  assumes "\<forall>x \<in> set xs. \<exists>v. x = Fin v"
  shows "\<exists>vs. finite_values xs = Some vs \<and> xs = map Fin vs"
  using assms
proof (induction xs)
  case Nil
  then show ?case by simp
next
  case (Cons x xs)
  then obtain v vs where "x = Fin v" "finite_values xs = Some vs" "xs = map Fin vs" by auto
  then show ?case by simp
qed

lemma length_roll_mean: "length (roll_mean w xs) = length xs"
  by (simp add: roll_mean_def)

lemma mean_nonneg: "\<forall>v \<in> set vs. 0 \<le> v \<Longrightarrow> 0 \<le> mean vs"
  by (simp add: mean_def sum_list_nonneg)

lemma set_window_at: "set (window_at w xs i) \<subseteq> set xs"
  by (metis window_at_def set_take_subset set_drop_subset subset_trans)

lemma roll_mean_fin_nn:
  assumes "\<forall>x \<in> set xs. fin_nn x" and "i < length xs"
  shows "if i + 1 < w then roll_mean w xs ! i = NaN else fin_nn (roll_mean w xs ! i)"
proof (cases "i + 1 < w")
  case True
  with assms(2) show ?thesis by (simp add: roll_mean_def rolling_nth)
next
  case False
  from assms(1) set_window_at [of w xs i]
  have fin: "\<forall>x \<in> set (window_at w xs i). fin_nn x" by blast
  then have "\<forall>x \<in> set (window_at w xs i). \<exists>v. x = Fin v" by (auto simp add: fin_nn_def)
  from finite_values_all_fin [OF this] obtain vs where
    vs: "finite_values (window_at w xs i) = Some vs" "window_at w xs i = map Fin vs" by blast
  from fin vs(2) have "\<forall>v \<in> set vs. 0 \<le> v" by (auto simp add: fin_nn_def)
  then have "0 \<le> mean vs" by (rule mean_nonneg)
  with False assms(2) vs(1) show ?thesis
    by (simp add: roll_mean_def rolling_nth fin_nn_def)
qed

lemma series_diff_elem:
  assumes "x \<in> set (series_diff (map Fin data))"
  shows "x = NaN \<or> (\<exists>v. x = Fin v)"
proof -
  from assms obtain a b where ab: "(a, b) \<in> set (zip (map Fin data) (shift1 (map Fin data)))"
    and x: "x = fsub a b"
    by (auto simp add: series_diff_def)
  from ab have "a \<in> set (map Fin data)" by (rule set_zip_leftD)
  then obtain u where a: "a = Fin u" by auto
  from ab have "b \<in> set (shift1 (map Fin data))" by (rule set_zip_rightD)
  then have "b = NaN \<or> b \<in> set (map Fin data)"
    by (auto simp add: shift1_def split: if_splits dest: in_set_butlastD)
  then have "b = NaN \<or> (\<exists>v. b = Fin v)" by auto
  with a x show ?thesis by (auto simp add: fsub_def)
qed

lemma fillna_map_elem:
  assumes "x \<in> set (fillna v (map g ds))"
  obtains d where "d \<in> set ds" and "x = (if g d = NaN then Fin v else g d)"
proof -
  from assms have "x \<in> (\<lambda>y. if y = NaN then Fin v else y) ` g ` set ds"
    by (simp only: fillna_def set_map)
  then show thesis using that by blast
qed

lemma gain_fin_nn:
  "\<forall>x \<in> set (fillna 0 (map (\<lambda>d. if fgt d (Fin 0) then d else Fin 0) (series_diff (map Fin data)))). fin_nn x"
proof
  fix x
  assume "x \<in> set (fillna 0 (map (\<lambda>d. if fgt d (Fin 0) then d else Fin 0) (series_diff (map Fin data))))"
  then obtain d where d: "d \<in> set (series_diff (map Fin data))"
    and x: "x = (if (if fgt d (Fin 0) then d else Fin 0) = NaN then Fin 0
                 else (if fgt d (Fin 0) then d else Fin 0))"
    by (rule fillna_map_elem)
  from series_diff_elem [OF d] show "fin_nn x"
    unfolding x by (auto simp add: fin_nn_def fgt_def)
qed

lemma loss_fin_nn:
  "\<forall>x \<in> set (fillna 0 (map (\<lambda>d. fneg (if flt d (Fin 0) then d else Fin 0)) (series_diff (map Fin data)))). fin_nn x"
proof
  fix x
  assume "x \<in> set (fillna 0 (map (\<lambda>d. fneg (if flt d (Fin 0) then d else Fin 0)) (series_diff (map Fin data))))"
  then obtain d where d: "d \<in> set (series_diff (map Fin data))"
    and x: "x = (if fneg (if flt d (Fin 0) then d else Fin 0) = NaN then Fin 0
                 else fneg (if flt d (Fin 0) then d else Fin 0))"
    by (rule fillna_map_elem)
  from series_diff_elem [OF d] show "fin_nn x"
    unfolding x by (auto simp add: fin_nn_def)
qed

lemma length_series_diff [simp]: "length (series_diff xs) = length xs"
  by (simp add: series_diff_def shift1_def)

lemma wilder_fin_nn:
  assumes "fin_nn a" and "fin_nn g" and "0 < w"
  shows "fin_nn (fdiv (fadd (fmul a (Fin (real_of_int (w - 1)))) g) (Fin (real_of_int w)))"
  using assms by (auto simp add: fin_nn_def)


lemma avg_ok_roll_mean:
  "\<forall>x \<in> set xs. fin_nn x \<Longrightarrow> avg_ok w (length xs) (roll_mean w xs)"
  using roll_mean_fin_nn [of xs _ w] by (simp add: avg_ok_def length_roll_mean)

lemma avg_ok_update:
  assumes ok: "avg_ok w n xs" and g: "\<forall>x \<in> set gs. fin_nn x" and lg: "length gs = n"
    and i: "w \<le> i" "i < n" and w: "0 < w"
  shows "avg_ok w n (xs[i := fdiv (fadd (fmul (xs ! (i - 1)) (Fin (real_of_int (int w - 1)))) (gs ! i))
                             (Fin (real_of_int (int w)))])"
proof -
  from ok i w have prev: "fin_nn (xs ! (i - 1))"
    by (auto simp add: avg_ok_def)
  from g lg i have "fin_nn (gs ! i)" by simp
  with prev w have new: "fin_nn (fdiv (fadd (fmul (xs ! (i - 1)) (Fin (real_of_int (int w - 1)))) (gs ! i))
                             (Fin (real_of_int (int w))))"
    by (intro wilder_fin_nn) simp_all
  from ok have len: "length xs = n" by (simp add: avg_ok_def)
  show ?thesis
    unfolding avg_ok_def
  proof (intro conjI allI impI)
    show "length (xs[i := fdiv (fadd (fmul (xs ! (i - 1)) (Fin (real_of_int (int w - 1)))) (gs ! i))
                             (Fin (real_of_int (int w)))]) = n"
      using len by simp
  next
    fix j assume j: "j < n"
    show "if j + 1 < w
          then xs[i := fdiv (fadd (fmul (xs ! (i - 1)) (Fin (real_of_int (int w - 1)))) (gs ! i))
                             (Fin (real_of_int (int w)))] ! j = NaN
          else fin_nn (xs[i := fdiv (fadd (fmul (xs ! (i - 1)) (Fin (real_of_int (int w - 1)))) (gs ! i))
                             (Fin (real_of_int (int w)))] ! j)"
    proof (cases "j = i")
      case True
      with new i len show ?thesis by simp
    next
      case False
      with ok j show ?thesis by (simp add: avg_ok_def)
    qed
  qed
qed

lemma rsi_loop_ok:
  assumes w: "0 < w" and g: "\<forall>x \<in> set gain. fin_nn x" and l: "\<forall>x \<in> set loss. fin_nn x"
    and lg: "length gain = n" and ll: "length loss = n"
  shows "avg_ok w n (fst (foldl (rsi_step (int w) gain loss) (roll_mean w gain, roll_mean w loss) [w..<n])) \<and>
         avg_ok w n (snd (foldl (rsi_step (int w) gain loss) (roll_mean w gain, roll_mean w loss) [w..<n]))"
proof (rule foldl_invariant [where P = "\<lambda>s. avg_ok w n (fst s) \<and> avg_ok w n (snd s)"])
  show "avg_ok w n (fst (roll_mean w gain, roll_mean w loss)) \<and>
        avg_ok w n (snd (roll_mean w gain, roll_mean w loss))"
    using avg_ok_roll_mean [OF g, of w] avg_ok_roll_mean [OF l, of w] lg ll by simp
next
  fix s i
  assume i: "i \<in> set [w..<n]" and ok: "avg_ok w n (fst s) \<and> avg_ok w n (snd s)"
  obtain ag al where s: "s = (ag, al)" by (cases s)
  from i w have i': "w \<le> i" "i < n" "0 < i" by auto
  from ok s have "avg_ok w n ag" "avg_ok w n al" by simp_all
  from avg_ok_update [OF this(1) g lg i'(1,2) w] avg_ok_update [OF this(2) l ll i'(1,2) w]
  show "avg_ok w n (fst (rsi_step (int w) gain loss s i)) \<and>
        avg_ok w n (snd (rsi_step (int w) gain loss s i))"
    using i'(3) by (simp add: rsi_step_def s)
qed

lemma rsi_entry:
  assumes "if c then a = NaN \<and> l = NaN else fin_nn a \<and> fin_nn l"
  shows "if c then fsub (Fin 100) (fdiv (Fin 100) (fadd (Fin 1)
               (fdiv a (if feq l (Fin 0) then Fin (1 / 10 ^ 10) else l)))) = NaN
         else \<exists>v. fsub (Fin 100) (fdiv (Fin 100) (fadd (Fin 1)
               (fdiv a (if feq l (Fin 0) then Fin (1 / 10 ^ 10) else l)))) = Fin v \<and> 0 \<le> v \<and> v \<le> 100"
proof (cases c)
  case True
  with assms show ?thesis by (simp add: fsub_def feq_def)
next
  case False
  with assms obtain x y where a: "a = Fin x" "0 \<le> x" and l: "l = Fin y" "0 \<le> y"
    by (auto simp add: fin_nn_def)
  define y' where "y' = (if y = 0 then 1 / 10 ^ 10 else y)"
  have y': "0 < y'" using l(2) by (simp add: y'_def)
  have rs: "0 \<le> x / y'" using a(2) y' by simp
  then have pos: "0 < 1 + x / y'" by linarith
  have l': "(if feq l (Fin 0) then Fin (1 / 10 ^ 10) else l) = Fin y'"
    by (simp add: l(1) feq_def y'_def)
  have "fdiv a (Fin y') = Fin (x / y')" using a(1) y' by simp
  then have "fadd (Fin 1) (fdiv a (Fin y')) = Fin (1 + x / y')" by simp
  then have "fdiv (Fin 100) (fadd (Fin 1) (fdiv a (Fin y'))) = Fin (100 / (1 + x / y'))"
    using pos by simp
  then have "fsub (Fin 100) (fdiv (Fin 100) (fadd (Fin 1)
               (fdiv a (if feq l (Fin 0) then Fin (1 / 10 ^ 10) else l)))) = Fin (100 - 100 / (1 + x / y'))"
    unfolding l' by (simp add: fsub_def)
  moreover have "100 / (1 + x / y') \<le> 100"
    using rs pos by (simp add: pos_divide_le_eq)
  moreover have "0 \<le> 100 / (1 + x / y')" using pos by simp
  ultimately show ?thesis using False by simp
qed

lemma rsi_bounds:
  assumes "rsi data window = Inr r"
  shows "length r = length data \<and>
         (\<forall>i < length data.
            if int i + 1 < window then r ! i = NaN
            else \<exists>v. r ! i = Fin v \<and> 0 \<le> v \<and> v \<le> 100)"
proof -
  define w where "w = nat window"
  define n where "n = length data"
  define gain where "gain = fillna 0 (map (\<lambda>d. if fgt d (Fin 0) then d else Fin 0) (series_diff (map Fin data)))"
  define loss where "loss = fillna 0 (map (\<lambda>d. fneg (if flt d (Fin 0) then d else Fin 0)) (series_diff (map Fin data)))"
  define avgs where "avgs = foldl (rsi_step window gain loss) (roll_mean w gain, roll_mean w loss) [w..<n]"
  from assms have win: "0 < window"
    by (auto simp add: rsi_def ebind_def validate_input_def split: if_splits)
  then have w: "0 < w" and iw: "int w = window" by (simp_all add: w_def)
  from assms win have r: "r = map (\<lambda>r. fsub (Fin 100) (fdiv (Fin 100) (fadd (Fin 1) r)))
        (map2 fdiv (fst avgs) (map (\<lambda>x. if feq x (Fin 0) then Fin (1 / 10 ^ 10) else x) (snd avgs)))"
    unfolding rsi_def ebind_def validate_input_def Let_def avgs_def gain_def loss_def w_def n_def
    by (auto split: if_splits)
  have lg: "length gain = n" and ll: "length loss = n"
    by (simp_all add: gain_def loss_def fillna_def n_def)
  have g: "\<forall>x \<in> set gain. fin_nn x" unfolding gain_def by (rule gain_fin_nn)
  have l: "\<forall>x \<in> set loss. fin_nn x" unfolding loss_def by (rule loss_fin_nn)
  from rsi_loop_ok [OF w g l lg ll]
  have ok: "avg_ok w n (fst avgs)" "avg_ok w n (snd avgs)"
    unfolding avgs_def iw by simp_all
  then have la: "length (fst avgs) = n" "length (snd avgs) = n" by (simp_all add: avg_ok_def)
  have len: "length r = length data" using la by (simp add: r n_def)
  have "if int i + 1 < window then r ! i = NaN else \<exists>v. r ! i = Fin v \<and> 0 \<le> v \<and> v \<le> 100"
    if i: "i < length data" for i
  proof -
    from i have i': "i < n" by (simp add: n_def)
    have c: "(int i + 1 < window) = (i + 1 < w)" using iw by linarith
    from ok i' have "if i + 1 < w then fst avgs ! i = NaN \<and> snd avgs ! i = NaN
                     else fin_nn (fst avgs ! i) \<and> fin_nn (snd avgs ! i)"
      by (simp add: avg_ok_def)
    from rsi_entry [OF this]
    show ?thesis using i' la by (simp add: r c)
  qed
  with len show ?thesis by blast
qed

lemma round_half_even_ge: "real_of_int n \<le> y \<Longrightarrow> n \<le> round_half_even y"
proof -
  assume "real_of_int n \<le> y"
  then have "n \<le> \<lfloor>y\<rfloor>" by (simp add: le_floor_iff)
  then show ?thesis by (simp add: round_half_even_def Let_def)
qed

lemma round_half_even_le: "y \<le> real_of_int n \<Longrightarrow> round_half_even y \<le> n"
proof -
  assume y: "y \<le> real_of_int n"
  then have f: "\<lfloor>y\<rfloor> \<le> n" by (simp add: floor_le_iff)
  show ?thesis
  proof (cases "y - real_of_int \<lfloor>y\<rfloor> < 1 / 2")
    case True
    with f show ?thesis by (simp add: round_half_even_def Let_def)
  next
    case False
    then have "real_of_int \<lfloor>y\<rfloor> < y" by linarith
    with y have "real_of_int \<lfloor>y\<rfloor> < real_of_int n" by linarith
    then have "\<lfloor>y\<rfloor> + 1 \<le> n" by simp
    with f show ?thesis by (simp add: round_half_even_def Let_def)
  qed
qed

lemma py_round_bounds:
  assumes "0 \<le> x" and "x \<le> 100"
  shows "0 \<le> py_round x 2 \<and> py_round x 2 \<le> 100"
proof -
  from assms(1) have "real_of_int 0 \<le> x * 10 ^ 2" by simp
  then have lo: "0 \<le> round_half_even (x * 10 ^ 2)" by (rule round_half_even_ge)
  from assms(2) have "x * 10 ^ 2 \<le> real_of_int 10000" by simp
  then have hi: "round_half_even (x * 10 ^ 2) \<le> 10000" by (rule round_half_even_le)
  from lo have "0 \<le> real_of_int (round_half_even (x * 10 ^ 2)) / 10 ^ 2" by simp
  moreover from hi have "real_of_int (round_half_even (x * 10 ^ 2)) \<le> 10000" by linarith
  then have "real_of_int (round_half_even (x * 10 ^ 2)) / 10 ^ 2 \<le> 100" by simp
  ultimately show ?thesis by (simp add: py_round_def)
qed

lemma rsi_value_bounds:
  assumes "0 \<le> avg_gain" and "0 \<le> avg_loss"
  shows "\<exists>v. rsi_value avg_gain avg_loss = Inr v \<and> 0 \<le> v \<and> v \<le> 100"
proof -
  define rs where "rs = (if avg_loss \<noteq> 0 then avg_gain / avg_loss else 100)"
  have rs: "0 \<le> rs" using assms by (simp add: rs_def)
  then have pos: "0 < 1 + rs" by linarith
  have "100 / (1 + rs) \<le> 100" using rs pos by (simp add: pos_divide_le_eq)
  moreover have "0 \<le> 100 / (1 + rs)" using pos by simp
  ultimately have "0 \<le> 100 - 100 / (1 + rs)" "100 - 100 / (1 + rs) \<le> 100" by simp_all
  then have "0 \<le> py_round (100 - 100 / (1 + rs)) 2 \<and> py_round (100 - 100 / (1 + rs)) 2 \<le> 100"
    by (rule py_round_bounds)
  moreover have "rsi_value avg_gain avg_loss = Inr (py_round (100 - 100 / (1 + rs)) 2)"
    using pos by (simp add: rsi_value_def Let_def rs_def [symmetric])
  ultimately show ?thesis by simp
qed

lemma wilder_nonneg:
  assumes "0 \<le> a" and "0 < period"
  shows "0 \<le> (a * (real period - 1) + max d 0) / real period"
proof -
  from assms(2) have "0 \<le> real period - 1" by simp
  with assms(1) have "0 \<le> a * (real period - 1)" by simp
  then have "0 \<le> a * (real period - 1) + max d 0" by simp
  with assms(2) show ?thesis by simp
qed

lemma calc_rsi_from_bounds:
  assumes "0 < period" and "0 \<le> avg_gain" and "0 \<le> avg_loss"
  shows "\<exists>r. calc_rsi_from period avg_gain avg_loss prev cs = Inr r \<and> length r = length cs \<and>
             (\<forall>x \<in> set r. \<exists>v. x = Some v \<and> 0 \<le> v \<and> v \<le> 100)"
  using assms(2,3)
proof (induction cs arbitrary: avg_gain avg_loss prev)
  case Nil
  then show ?case by simp
next
  case (Cons c cs)
  define g where "g = (avg_gain * (real period - 1) + max (c - prev) 0) / real period"
  define l where "l = (avg_loss * (real period - 1) + max (- (c - prev)) 0) / real period"
  have g: "0 \<le> g" unfolding g_def using Cons.prems(1) assms(1) by (rule wilder_nonneg)
  have l: "0 \<le> l" unfolding l_def using Cons.prems(2) assms(1) by (rule wilder_nonneg)
  from rsi_value_bounds [OF g l] obtain v where
    v: "rsi_value g l = Inr v" "0 \<le> v" "v \<le> 100" by blast
  from Cons.IH [OF g l] obtain r where
    r: "calc_rsi_from period g l c cs = Inr r" "length r = length cs"
       "\<forall>x \<in> set r. \<exists>v. x = Some v \<and> 0 \<le> v \<and> v \<le> 100" by blast
  have "calc_rsi_from period avg_gain avg_loss prev (c # cs) = Inr (Some v # r)"
    unfolding calc_rsi_from.simps Let_def g_def [symmetric] l_def [symmetric]
    by (simp add: ebind_def v(1) r(1))
  with v r show ?case by simp
qed

lemma calc_rsi_bounds:
  assumes "0 < period"
  shows "\<exists>r. calc_rsi closes period = Inr r \<and> length r = length closes \<and>
             (\<forall>x \<in> set r. x = None \<or> (\<exists>v. x = Some v \<and> 0 \<le> v \<and> v \<le> 100))"
proof (cases "length closes < period + 1")
  case True
  then show ?thesis by (simp add: calc_rsi_def)
next
  case False
  define g where "g = sum_list (map (\<lambda>i. max (closes ! i - closes ! (i - 1)) 0) [1..<period + 1]) / real period"
  define l where "l = sum_list (map (\<lambda>i. max (- (closes ! i - closes ! (i - 1))) 0) [1..<period + 1]) / real period"
  have "0 \<le> sum_list (map (\<lambda>i. max (closes ! i - closes ! (i - 1)) 0) [1..<period + 1])"
    by (rule sum_list_nonneg) auto
  then have g: "0 \<le> g" using assms by (simp add: g_def)
  have "0 \<le> sum_list (map (\<lambda>i. max (- (closes ! i - closes ! (i - 1))) 0) [1..<period + 1])"
    by (rule sum_list_nonneg) auto
  then have l: "0 \<le> l" using assms by (simp add: l_def)
  from rsi_value_bounds [OF g l] obtain v where
    v: "rsi_value g l = Inr v" "0 \<le> v" "v \<le> 100" by blast
  from calc_rsi_from_bounds [OF assms g l, of "closes ! period" "drop (period + 1) closes"] obtain r where
    r: "calc_rsi_from period g l (closes ! period) (drop (period + 1) closes) = Inr r"
       "length r = length (drop (period + 1) closes)"
       "\<forall>x \<in> set r. \<exists>v. x = Some v \<and> 0 \<le> v \<and> v \<le> 100" by blast
  have "calc_rsi closes period = Inr (replicate period None @ Some v # r)"
    unfolding calc_rsi_def Let_def g_def [symmetric] l_def [symmetric]
    using False assms r(1) by (simp add: ebind_def v(1))
  moreover have "length (replicate period None @ Some v # r) = length closes"
    using False r(2) by simp
  moreover have "\<forall>x \<in> set (replicate period None @ Some v # r).
      x = None \<or> (\<exists>v. x = Some v \<and> 0 \<le> v \<and> v \<le> 100)"
    using v(2,3) r(3) by auto
  ultimately show ?thesis by simp
qed

text \<open>
  C6. Whenever \<open>indicators.rsi\<close> accepts its input, the result has the length of the
  input, is NaN before position \<open>window - 1\<close> and from there on a number between 0 and 100.
  \<open>calc_rsi\<close> of \<open>technical_old.py\<close> returns for every positive period; its entries are
  \<open>None\<close> or a number between 0 and 100. (The first replaces a zero average loss by
  \<open>1e-10\<close>, the second takes \<open>rs = 100\<close> there; neither divides by zero.)
\<close>

theorem rsi_within_bounds:
  "(rsi data window = Inr r \<longrightarrow>
      length r = length data \<and>
      (\<forall>i < length data.
         if int i + 1 < window then r ! i = NaN
         else \<exists>v. r ! i = Fin v \<and> 0 \<le> v \<and> v \<le> 100)) \<and>
   (0 < period \<longrightarrow>
      (\<exists>r'. calc_rsi closes period = Inr r' \<and> length r' = length closes \<and>
         (\<forall>x \<in> set r'. x = None \<or> (\<exists>v. x = Some v \<and> 0 \<le> v \<and> v \<le> 100))))"
  using rsi_bounds [of data window r] calc_rsi_bounds [of period closes] by blast

theorem rsi_within_bounds_witness:
  "rsi [100, 102, 101, 103, 105] 3 = Inr [NaN, NaN, Fin (200 / 3), Fin (250 / 3), Fin (1900 / 21)] \<and>
   [NaN, NaN, Fin (200 / 3), Fin (250 / 3), Fin (1900 / 21)] ! 1 = NaN \<and>
   (\<exists>v. [NaN, NaN, Fin (200 / 3), Fin (250 / 3), Fin (1900 / 21)] ! 4 = Fin v \<and> 0 \<le> v \<and> v \<le> 100) \<and>
   (0::nat) < 3 \<and>
   calc_rsi [100, 102, 101, 103, 105] 3 = Inr [None, None, None, Some 80, Some (175 / 2)] \<and>
   (\<exists>v. [None, None, None, Some 80, Some (175 / 2 :: real)] ! 4 = Some v \<and> 0 \<le> v \<and> v \<le> 100)"
proof -
  have a: "rsi [100, 102, 101, 103, 105] 3 = Inr [NaN, NaN, Fin (200 / 3), Fin (250 / 3), Fin (1900 / 21)]"
    by code_simp
  have b: "calc_rsi [100, 102, 101, 103, 105] 3 = Inr [None, None, None, Some 80, Some (175 / 2)]"
    by code_simp
  have p: "(0::nat) < 3" by simp
  note t = rsi_within_bounds [of "[100, 102, 101, 103, 105]" 3
      "[NaN, NaN, Fin (200 / 3), Fin (250 / 3), Fin (1900 / 21)]" 3 "[100, 102, 101, 103, 105]"]
  from t [THEN conjunct1, THEN mp, OF a]
  have rows: "\<forall>i < length [100, 102, 101, 103, 105 :: real].
         if int i + 1 < 3 then [NaN, NaN, Fin (200 / 3), Fin (250 / 3), Fin (1900 / 21)] ! i = NaN
         else \<exists>v. [NaN, NaN, Fin (200 / 3), Fin (250 / 3), Fin (1900 / 21)] ! i = Fin v \<and> 0 \<le> v \<and> v \<le> 100"
    by blast
  have "(1::nat) < length [100, 102, 101, 103, 105 :: real]" by simp
  with rows have "if int 1 + 1 < 3 then [NaN, NaN, Fin (200 / 3), Fin (250 / 3), Fin (1900 / 21)] ! 1 = NaN
         else \<exists>v. [NaN, NaN, Fin (200 / 3), Fin (250 / 3), Fin (1900 / 21)] ! 1 = Fin v \<and> 0 \<le> v \<and> v \<le> 100"
    by blast
  then have 1: "[NaN, NaN, Fin (200 / 3), Fin (250 / 3), Fin (1900 / 21)] ! 1 = NaN" by simp
  have "(4::nat) < length [100, 102, 101, 103, 105 :: real]" by simp
  with rows have "if int 4 + 1 < 3 then [NaN, NaN, Fin (200 / 3), Fin (250 / 3), Fin (1900 / 21)] ! 4 = NaN
         else \<exists>v. [NaN, NaN, Fin (200 / 3), Fin (250 / 3), Fin (1900 / 21)] ! 4 = Fin v \<and> 0 \<le> v \<and> v \<le> 100"
    by blast
  then have 2: "\<exists>v. [NaN, NaN, Fin (200 / 3), Fin (250 / 3), Fin (1900 / 21)] ! 4 = Fin v \<and> 0 \<le> v \<and> v \<le> 100"
    by simp
  from t [THEN conjunct2, THEN mp, OF p] b
  have "\<forall>x \<in> set [None, None, None, Some 80, Some (175 / 2 :: real)].
      x = None \<or> (\<exists>v. x = Some v \<and> 0 \<le> v \<and> v \<le> 100)" by auto
  then have 3: "\<exists>v. [None, None, None, Some 80, Some (175 / 2 :: real)] ! 4 = Some v \<and> 0 \<le> v \<and> v \<le> 100"
    by simp
  from a b p 1 2 3 show ?thesis by blast
qed


subsection \<open>KDJ\<close>

lemma round_half_even_of_int: "round_half_even (real_of_int z) = z"
  by (simp add: round_half_even_def)

lemma py_round_fixed: "py_round (real_of_int z / 10 ^ n) n = real_of_int z / 10 ^ n"
  by (simp add: py_round_def round_half_even_of_int)

lemma py_round_is_decimal: "\<exists>z. py_round x n = real_of_int z / 10 ^ n"
  by (auto simp add: py_round_def)

lemma j_exact: "py_round (3 * py_round x 2 - 2 * py_round y 2) 2 = 3 * py_round x 2 - 2 * py_round y 2"
proof -
  obtain a where a: "py_round x 2 = real_of_int a / 10 ^ 2" using py_round_is_decimal by blast
  obtain b where b: "py_round y 2 = real_of_int b / 10 ^ 2" using py_round_is_decimal by blast
  have "3 * py_round x 2 - 2 * py_round y 2 = real_of_int (3 * a - 2 * b) / 10 ^ 2"
    by (simp add: a b diff_divide_distrib)
  then show ?thesis by (simp only: py_round_fixed)
qed

lemma kdj_window_nonempty: "0 < n \<Longrightarrow> i < length klines \<Longrightarrow> kdj_window klines n i \<noteq> []"
  by (auto simp add: kdj_window_def Let_def)

lemma kdj_step_row:
  assumes "0 < n" "0 < m1" "0 < m2" "i < length klines"
  shows "\<exists>rsv k' d'. calc_rsv klines n i = Inr rsv \<and> smooth m1 k rsv = Inr k' \<and> smooth m2 d k' = Inr d' \<and>
           kdj_row klines n m1 m2 k d i k' d' (py_round (3 * k' - 2 * d') 2)"
proof -
  from kdj_window_nonempty [OF assms(1,4)]
  obtain rsv where rsv: "calc_rsv klines n i = Inr rsv"
    and flat: "window_high klines n i = window_low klines n i \<longrightarrow> rsv = 50"
    by (simp add: calc_rsv_def Let_def)
  define k' where "k' = py_round ((real m1 - 1) / real m1 * k + 1 / real m1 * rsv) 2"
  define d' where "d' = py_round ((real m2 - 1) / real m2 * d + 1 / real m2 * k') 2"
  have sk: "smooth m1 k rsv = Inr k'" using assms(2) by (simp add: smooth_def k'_def)
  have sd: "smooth m2 d k' = Inr d'" using assms(3) by (simp add: smooth_def d'_def)
  have "py_round (3 * k' - 2 * d') 2 = 3 * k' - 2 * d'"
    unfolding k'_def d'_def by (rule j_exact)
  with rsv flat have "kdj_row klines n m1 m2 k d i k' d' (py_round (3 * k' - 2 * d') 2)"
    unfolding kdj_row_def using k'_def d'_def by blast
  with rsv sk sd show ?thesis by blast
qed

lemma calc_kdj_from_rows:
  assumes "0 < n" "0 < m1" "0 < m2" and "\<forall>i \<in> set is. i < length klines"
  shows "\<exists>ks ds js. calc_kdj_from klines n m1 m2 k d is = Inr (ks, ds, js) \<and>
           length ks = length is \<and> length ds = length is \<and> length js = length is \<and>
           (\<forall>p < length is.
              kdj_row klines n m1 m2 (if p = 0 then k else ks ! (p - 1)) (if p = 0 then d else ds ! (p - 1))
                (is ! p) (ks ! p) (ds ! p) (js ! p))"
  using assms(4)
proof (induction "is" arbitrary: k d)
  case Nil
  then show ?case by simp
next
  case (Cons i "is")
  from Cons.prems have i: "i < length klines" and rest: "\<forall>i \<in> set is. i < length klines" by simp_all
  from kdj_step_row [OF assms(1-3) i, of k d] obtain rsv k' d' where
    rsv: "calc_rsv klines n i = Inr rsv" and sk: "smooth m1 k rsv = Inr k'" and sd: "smooth m2 d k' = Inr d'"
    and row: "kdj_row klines n m1 m2 k d i k' d' (py_round (3 * k' - 2 * d') 2)" by blast
  from Cons.IH [OF rest, of k' d'] obtain ks ds js where
    tl: "calc_kdj_from klines n m1 m2 k' d' is = Inr (ks, ds, js)" and
    len: "length ks = length is" "length ds = length is" "length js = length is" and
    rows: "\<forall>p < length is.
              kdj_row klines n m1 m2 (if p = 0 then k' else ks ! (p - 1)) (if p = 0 then d' else ds ! (p - 1))
                (is ! p) (ks ! p) (ds ! p) (js ! p)" by blast
  let ?j = "py_round (3 * k' - 2 * d') 2"
  have eq: "calc_kdj_from klines n m1 m2 k d (i # is) = Inr (k' # ks, d' # ds, ?j # js)"
    by (simp add: ebind_def rsv sk sd tl Let_def)
  have "kdj_row klines n m1 m2 (if p = 0 then k else (k' # ks) ! (p - 1))
          (if p = 0 then d else (d' # ds) ! (p - 1))
          ((i # is) ! p) ((k' # ks) ! p) ((d' # ds) ! p) ((?j # js) ! p)"
    if p: "p < length (i # is)" for p
  proof (cases p)
    case 0
    with row show ?thesis by simp
  next
    case (Suc q)
    with p have q: "q < length is" by simp
    from rows q have "kdj_row klines n m1 m2 (if q = 0 then k' else ks ! (q - 1))
        (if q = 0 then d' else ds ! (q - 1)) (is ! q) (ks ! q) (ds ! q) (js ! q)" by blast
    then show ?thesis using Suc by (cases q) simp_all
  qed
  with eq len show ?case by simp
qed

lemma calc_kdj_rows:
  assumes "0 < n" "0 < m1" "0 < m2"
  shows "\<exists>ks ds js. calc_kdj klines n m1 m2 = Inr (ks, ds, js) \<and>
           length ks = length klines \<and> length ds = length klines \<and> length js = length klines \<and>
           (\<forall>i < length klines.
              kdj_row klines n m1 m2 (if i = 0 then 50 else ks ! (i - 1)) (if i = 0 then 50 else ds ! (i - 1))
                i (ks ! i) (ds ! i) (js ! i))"
proof -
  have "\<forall>i \<in> set [0..<length klines]. i < length klines" by simp
  from calc_kdj_from_rows [OF assms this, of 50 50]
  show ?thesis by (simp add: calc_kdj_def)
qed


lemma length_kdj_rsv:
  "length high = length low \<Longrightarrow> length low = length close \<Longrightarrow>
   length (kdj_rsv high low close w) = length close"
  by (simp add: kdj_rsv_def Let_def roll_min_def roll_max_def rolling_def)

lemma roll_mean_sma_at:
  "1 < w \<Longrightarrow> i < length xs \<Longrightarrow> roll_mean w xs ! i = sma_at w xs i"
  by (simp add: roll_mean_def rolling_def sma_at_def)

lemma j_entry:
  "fsub (fmul (Fin 3) (Fin a)) (fmul (Fin 2) (Fin b)) = Fin (3 * a - 2 * b)"
  by (simp add: fsub_def)

lemma kdj_lines:
  assumes "kdj high low close k_window d_window j_window = Inr (k, d, j)"
  shows "length k = length close \<and> length d = length close \<and> length j = length close \<and>
         (\<forall>i < length close.
            k ! i = sma_at (nat d_window) (kdj_rsv high low close (nat k_window)) i \<and>
            d ! i = sma_at (nat j_window) k i \<and>
            j ! i = fsub (fmul (Fin 3) (k ! i)) (fmul (Fin 2) (d ! i)) \<and>
            (\<forall>a b. k ! i = Fin a \<and> d ! i = Fin b \<longrightarrow> j ! i = Fin (3 * a - 2 * b)))"
proof -
  let ?rsv = "kdj_rsv high low close (nat k_window)"
  from assms have len: "length high = length low" "length low = length close"
    and k: "k = (if d_window > 1 then roll_mean (nat d_window) ?rsv else ?rsv)"
    and d: "d = (if j_window > 1 then roll_mean (nat j_window) k else k)"
    and j: "j = map2 (\<lambda>k d. fsub (fmul (Fin 3) k) (fmul (Fin 2) d)) k d"
    unfolding kdj_def ebind_def validate_input_def Let_def
    by (auto split: if_splits)
  have lr: "length ?rsv = length close" using len by (rule length_kdj_rsv)
  have lk: "length k = length close" using lr by (simp add: k roll_mean_def)
  have ld: "length d = length close" using lk by (simp add: d roll_mean_def)
  have lj: "length j = length close" using lk ld by (simp add: j)
  have "k ! i = sma_at (nat d_window) ?rsv i \<and> d ! i = sma_at (nat j_window) k i \<and>
        j ! i = fsub (fmul (Fin 3) (k ! i)) (fmul (Fin 2) (d ! i)) \<and>
        (\<forall>a b. k ! i = Fin a \<and> d ! i = Fin b \<longrightarrow> j ! i = Fin (3 * a - 2 * b))"
    if i: "i < length close" for i
  proof -
    have 1: "k ! i = sma_at (nat d_window) ?rsv i"
    proof (cases "d_window > 1")
      case True
      then have "1 < nat d_window" by simp
      from roll_mean_sma_at [OF this, of i ?rsv] i lr True show ?thesis by (simp add: k)
    next
      case False
      then have "nat d_window \<le> 1" by linarith
      then have "sma_at (nat d_window) ?rsv i = ?rsv ! i" by (simp only: sma_at_def if_True)
      with False show ?thesis by (simp add: k)
    qed
    have 2: "d ! i = sma_at (nat j_window) k i"
    proof (cases "j_window > 1")
      case True
      then have "1 < nat j_window" by simp
      from roll_mean_sma_at [OF this, of i k] i lk True show ?thesis by (simp add: d)
    next
      case False
      then have "nat j_window \<le> 1" by linarith
      then have "sma_at (nat j_window) k i = k ! i" by (simp only: sma_at_def if_True)
      with False show ?thesis by (simp add: d)
    qed
    have 3: "j ! i = fsub (fmul (Fin 3) (k ! i)) (fmul (Fin 2) (d ! i))"
      using i lk ld by (simp add: j)
    have 4: "\<forall>a b. k ! i = Fin a \<and> d ! i = Fin b \<longrightarrow> j ! i = Fin (3 * a - 2 * b)"
      unfolding 3 by (auto simp add: fsub_def)
    from 1 2 3 4 show ?thesis by blast
  qed
  with lk ld lj show ?thesis by blast
qed

text \<open>
  C4 (amended). \<open>calc_kdj\<close> of \<open>technical_old.py\<close> returns for positive \<open>n\<close>, \<open>m1\<close>,
  \<open>m2\<close>, and at every bar: RSV is 50 when the window's highest high equals its lowest
  low; \<open>K = round((m1 - 1) / m1 * K_prev + 1 / m1 * RSV, 2)\<close>,
  \<open>D = round((m2 - 1) / m2 * D_prev + 1 / m2 * K, 2)\<close> and \<open>J = 3 * K - 2 * D\<close>, with
  \<open>K_prev = D_prev = 50\<close> before the first bar. \<open>indicators.kdj\<close>, whenever it returns,
  has \<open>%K\<close> the simple moving average of the last \<open>d_window\<close> RSV values and \<open>%D\<close> the
  simple moving average of the last \<open>j_window\<close> values of \<open>%K\<close> (each the series itself
  for a window of 1, and NaN before a full window of finite values: nothing is seeded),
  and \<open>%J = 3 * %K - 2 * %D\<close>.
\<close>

theorem kdj_recurrences:
  "(0 < n \<and> 0 < m1 \<and> 0 < m2 \<longrightarrow>
      (\<exists>ks ds js. calc_kdj klines n m1 m2 = Inr (ks, ds, js) \<and>
         length ks = length klines \<and> length ds = length klines \<and> length js = length klines \<and>
         (\<forall>i < length klines.
            kdj_row klines n m1 m2 (if i = 0 then 50 else ks ! (i - 1)) (if i = 0 then 50 else ds ! (i - 1))
              i (ks ! i) (ds ! i) (js ! i)))) \<and>
   (kdj high low close k_window d_window j_window = Inr (k, d, j) \<longrightarrow>
      length k = length close \<and> length d = length close \<and> length j = length close \<and>
      (\<forall>i < length close.
         k ! i = sma_at (nat d_window) (kdj_rsv high low close (nat k_window)) i \<and>
         d ! i = sma_at (nat j_window) k i \<and>
         j ! i = fsub (fmul (Fin 3) (k ! i)) (fmul (Fin 2) (d ! i)) \<and>
         (\<forall>a b. k ! i = Fin a \<and> d ! i = Fin b \<longrightarrow> j ! i = Fin (3 * a - 2 * b))))"
  using calc_kdj_rows [of n m1 m2 klines] kdj_lines [of high low close k_window d_window j_window k d j]
  by blast

text \<open>
  On twelve bars \<open>indicators.kdj\<close> with the windows 9, 3, 3 has no \<open>%K\<close> for the first
  ten bars, and its last \<open>%K\<close>, \<open>280/3\<close>, is the mean of the RSV values 100, 80, 100 and
  not the smooth \<open>2/3 * 260/3 + 1/3 * 100\<close> of the \<open>%K\<close> before and the new RSV.
\<close>

theorem kdj_smoothing_counterexample:
  "map_sum id fst (kdj kdj_high kdj_low kdj_close 9 3 3)
     = Inr [NaN, NaN, NaN, NaN, NaN, NaN, NaN, NaN, NaN, NaN, Fin (260 / 3), Fin (280 / 3)] \<and>
   kdj_rsv kdj_high kdj_low kdj_close 9 ! 11 = Fin 100 \<and>
   (280 / 3 :: real) \<noteq> (3 - 1) / 3 * (260 / 3) + 1 / 3 * 100"
  by code_simp

theorem kdj_recurrences_witness:
  "((0::nat) < 9 \<and> (0::nat) < 3 \<and> (0::nat) < 3) \<and>
   (\<exists>ks ds js. calc_kdj kdj_klines 9 3 3 = Inr (ks, ds, js) \<and>
      length ks = length kdj_klines \<and>
      ks ! 0 = py_round ((real 3 - 1) / real 3 * 50 + 1 / real 3 * 0) 2 \<and>
      js ! 11 = 3 * ks ! 11 - 2 * ds ! 11) \<and>
   kdj kdj_high kdj_low kdj_close 9 3 3 =
     Inr ([NaN, NaN, NaN, NaN, NaN, NaN, NaN, NaN, NaN, NaN, Fin (260 / 3), Fin (280 / 3)],
          replicate 12 NaN, replicate 12 NaN) \<and>
   [NaN, NaN, NaN, NaN, NaN, NaN, NaN, NaN, NaN, NaN, Fin (260 / 3), Fin (280 / 3)] ! 11
        = sma_at (nat 3) (kdj_rsv kdj_high kdj_low kdj_close (nat 9)) 11"
proof -
  have p: "(0::nat) < 9 \<and> (0::nat) < 3 \<and> (0::nat) < 3" by simp
  have e: "kdj kdj_high kdj_low kdj_close 9 3 3 =
     Inr ([NaN, NaN, NaN, NaN, NaN, NaN, NaN, NaN, NaN, NaN, Fin (260 / 3), Fin (280 / 3)],
          replicate 12 NaN, replicate 12 NaN)"
    by code_simp
  note t = kdj_recurrences [of 9 3 3 kdj_klines kdj_high kdj_low kdj_close 9 3 3
      "[NaN, NaN, NaN, NaN, NaN, NaN, NaN, NaN, NaN, NaN, Fin (260 / 3), Fin (280 / 3)]"
      "replicate 12 NaN" "replicate 12 NaN"]
  from t [THEN conjunct1, THEN mp, OF p] obtain ks ds js where
    c: "calc_kdj kdj_klines 9 3 3 = Inr (ks, ds, js)" and l: "length ks = length kdj_klines" and
    rows: "\<forall>i < length kdj_klines.
            kdj_row kdj_klines 9 3 3 (if i = 0 then 50 else ks ! (i - 1)) (if i = 0 then 50 else ds ! (i - 1))
              i (ks ! i) (ds ! i) (js ! i)"
    by blast
  have len: "length kdj_klines = 12" by (simp add: kdj_klines_def)
  from rows len have "kdj_row kdj_klines 9 3 3 50 50 0 (ks ! 0) (ds ! 0) (js ! 0)" by force
  moreover have "calc_rsv kdj_klines 9 0 = Inr 0" by code_simp
  ultimately have k0: "ks ! 0 = py_round ((real 3 - 1) / real 3 * 50 + 1 / real 3 * 0) 2"
    by (auto simp add: kdj_row_def)
  have "(11::nat) < length kdj_klines" by (simp add: len)
  with rows have "kdj_row kdj_klines 9 3 3 (if (11::nat) = 0 then 50 else ks ! (11 - 1))
      (if (11::nat) = 0 then 50 else ds ! (11 - 1)) 11 (ks ! 11) (ds ! 11) (js ! 11)" by blast
  then have j11: "js ! 11 = 3 * ks ! 11 - 2 * ds ! 11" by (auto simp add: kdj_row_def)
  have "(11::nat) < length kdj_close" by (simp add: kdj_close_def)
  with t [THEN conjunct2, THEN mp, OF e, THEN conjunct2, THEN conjunct2, THEN conjunct2]
  have s: "[NaN, NaN, NaN, NaN, NaN, NaN, NaN, NaN, NaN, NaN, Fin (260 / 3), Fin (280 / 3)] ! 11
        = sma_at (nat 3) (kdj_rsv kdj_high kdj_low kdj_close (nat 9)) 11"
    by blast
  from p c l k0 j11 e s show ?thesis by blast
qed


section \<open>Properties of the reliability scanner\<close>

lemma calculate_returns_eq:
  "calculate_returns klines i hs = Inr rets \<Longrightarrow>
   rets = map (\<lambda>h. (h, if i + h < length klines then Some (forward_return klines i h) else None)) hs"
proof (induction hs arbitrary: rets)
  case Nil
  then show ?case by simp
next
  case (Cons h hs)
  from Cons.prems obtain rest where rest: "calculate_returns klines i hs = Inr rest"
    and rets: "rets = (h, if i + h < length klines then Some (forward_return klines i h) else None) # rest"
    by (auto simp add: Let_def ebind_def forward_return_def split: if_splits sum.splits)
  from Cons.IH [OF rest] rets show ?case by simp
qed

lemma calculate_returns_total:
  "k_close (klines ! i) \<noteq> 0 \<Longrightarrow> \<exists>rets. calculate_returns klines i hs = Inr rets"
  by (induction hs) (auto simp add: Let_def ebind_def)

lemma apply_returns_effect:
  assumes "distinct hs" and "set hs \<subseteq> fst ` set periods"
  shows "\<exists>ps. apply_returns ty periods (map (\<lambda>h. (h, g h)) hs) = Inr ps \<and>
           map fst ps = map fst periods \<and>
           (\<forall>h. map_of ps h =
              (if h \<in> set hs then
                 (case g h of None \<Rightarrow> map_of periods h
                  | Some r \<Rightarrow> map_option (\<lambda>p. update_period ty p r) (map_of periods h))
               else map_of periods h))"
  using assms
proof (induction hs arbitrary: periods)
  case Nil
  then show ?case by simp
next
  case (Cons h hs)
  from Cons.prems have h: "h \<in> fst ` set periods" and hs: "set hs \<subseteq> fst ` set periods"
    and d: "distinct hs" and nin: "h \<notin> set hs" by auto
  from h obtain p where p: "map_of periods h = Some p"
    by (metis domIff dom_map_of_conv_image_fst not_Some_eq)
  show ?case
  proof (cases "g h")
    case None
    from Cons.IH [OF d hs] obtain ps where
      ps: "apply_returns ty periods (map (\<lambda>h. (h, g h)) hs) = Inr ps"
          "map fst ps = map fst periods"
          "\<forall>h'. map_of ps h' =
              (if h' \<in> set hs then
                 (case g h' of None \<Rightarrow> map_of periods h'
                  | Some r \<Rightarrow> map_option (\<lambda>p. update_period ty p r) (map_of periods h'))
               else map_of periods h')" by blast
    have "apply_returns ty periods (map (\<lambda>h. (h, g h)) (h # hs)) = Inr ps"
      using None ps(1) by simp
    moreover have "\<forall>h'. map_of ps h' =
              (if h' \<in> set (h # hs) then
                 (case g h' of None \<Rightarrow> map_of periods h'
                  | Some r \<Rightarrow> map_option (\<lambda>p. update_period ty p r) (map_of periods h'))
               else map_of periods h')"
      using ps(3) None nin by auto
    ultimately show ?thesis using ps(2) by blast
  next
    case (Some r)
    let ?periods = "AList.update h (update_period ty p r) periods"
    have keys: "map fst ?periods = map fst periods"
      using h by (simp add: update_keys)
    then have hs': "set hs \<subseteq> fst ` set ?periods"
      using hs by (metis list.set_map)
    from Cons.IH [OF d hs'] obtain ps where
      ps: "apply_returns ty ?periods (map (\<lambda>h. (h, g h)) hs) = Inr ps"
          "map fst ps = map fst ?periods"
          "\<forall>h'. map_of ps h' =
              (if h' \<in> set hs then
                 (case g h' of None \<Rightarrow> map_of ?periods h'
                  | Some r \<Rightarrow> map_option (\<lambda>p. update_period ty p r) (map_of ?periods h'))
               else map_of ?periods h')" by blast
    have "apply_returns ty periods (map (\<lambda>h. (h, g h)) (h # hs)) = Inr ps"
      using Some p ps(1) by simp
    moreover have "\<forall>h'. map_of ps h' =
              (if h' \<in> set (h # hs) then
                 (case g h' of None \<Rightarrow> map_of periods h'
                  | Some r \<Rightarrow> map_option (\<lambda>p. update_period ty p r) (map_of periods h'))
               else map_of periods h')"
    proof
      fix h'
      show "map_of ps h' =
              (if h' \<in> set (h # hs) then
                 (case g h' of None \<Rightarrow> map_of periods h'
                  | Some r \<Rightarrow> map_option (\<lambda>p. update_period ty p r) (map_of periods h'))
               else map_of periods h')"
      proof (cases "h' = h")
        case True
        with ps(3) nin Some p show ?thesis by (simp add: update_conv')
      next
        case False
        then have other: "map_of ?periods h' = map_of periods h'" by (simp add: update_conv')
        from ps(3) have "map_of ps h' =
              (if h' \<in> set hs then
                 (case g h' of None \<Rightarrow> map_of ?periods h'
                  | Some r \<Rightarrow> map_option (\<lambda>p. update_period ty p r) (map_of ?periods h'))
               else map_of ?periods h')" by blast
        then show ?thesis unfolding other using False by simp
      qed
    qed
    ultimately show ?thesis using ps(2) keys by auto
  qed
qed


lemma tallied_empty: "tallied klines [] []"
  by (simp add: tallied_def)

lemma new_entry_tallied:
  assumes "nm \<notin> (\<lambda>f. fst (snd f)) ` set fs"
  shows "entry_tallied klines nm fs (new_signal_stat ty)"
proof -
  from assms have none: "filter (\<lambda>f. fst (snd f) = nm) fs = []"
    by (auto simp add: filter_empty_conv)
  have res: "resolved klines nm h fs = []" for h
    using assms by (auto simp add: resolved_def filter_empty_conv)
  have "period_tallied klines nm fs h p"
    if "map_of (s_periods (new_signal_stat ty)) h = Some p" for h p
    using that by (auto simp add: new_signal_stat_def period_tallied_def res split: if_splits)
  then show ?thesis
    by (simp add: entry_tallied_def none) (simp add: new_signal_stat_def default_periods_def)
qed

lemma other_entry_tallied:
  assumes "entry_tallied klines name fs e" and "name \<noteq> nm"
  shows "entry_tallied klines name (fs @ [(i, nm, ty)]) e"
  using assms by (simp add: entry_tallied_def period_tallied_def resolved_def)

lemma period_tallied_update:
  assumes "period_tallied klines nm fs h p" and "i + h < length klines"
  shows "period_tallied klines nm (fs @ [(i, nm, ty)]) h (update_period ty p (forward_return klines i h))"
  using assms
  by (auto simp add: period_tallied_def resolved_def update_period_def Let_def is_win_def)

lemma period_tallied_keep:
  assumes "period_tallied klines nm fs h p" and "\<not> i + h < length klines"
  shows "period_tallied klines nm (fs @ [(i, nm, ty)]) h p"
  using assms by (simp add: period_tallied_def resolved_def)

lemma record_firing_tallied:
  assumes t: "tallied klines st fs"
    and r: "record_firing klines st i (nm, ty, strength) = Inr st'"
  shows "tallied klines st' (fs @ [(i, nm, ty)])"
proof -
  define stats1 where "stats1 = (if map_of st nm = None
        then AList.update nm (new_signal_stat ty) st else st)"
  have names1: "fst ` set stats1 = insert nm (fst ` set st)"
  proof (cases "map_of st nm")
    case None
    then show ?thesis
      by (simp add: stats1_def update_keys map_of_eq_None_iff flip: set_map)
  next
    case (Some e)
    then have "nm \<in> fst ` set st" by (force dest: map_of_SomeD)
    with Some show ?thesis by (auto simp add: stats1_def)
  qed
  obtain entry where entry: "map_of stats1 nm = Some entry"
    and et: "entry_tallied klines nm fs entry"
    and others: "\<forall>name. name \<noteq> nm \<longrightarrow> map_of stats1 name = map_of st name"
  proof (cases "map_of st nm")
    case None
    then have "nm \<notin> fst ` set st" by (simp add: map_of_eq_None_iff)
    with t have "nm \<notin> (\<lambda>f. fst (snd f)) ` set fs" by (simp add: tallied_def)
    then have "entry_tallied klines nm fs (new_signal_stat ty)" by (rule new_entry_tallied)
    moreover have "map_of stats1 nm = Some (new_signal_stat ty)"
      using None by (simp add: stats1_def update_conv')
    moreover have "\<forall>name. name \<noteq> nm \<longrightarrow> map_of stats1 name = map_of st name"
      using None by (simp add: stats1_def update_conv')
    ultimately show ?thesis using that by blast
  next
    case (Some e)
    with t have "entry_tallied klines nm fs e" by (simp add: tallied_def)
    moreover have "stats1 = st" using Some by (simp add: stats1_def)
    ultimately show ?thesis using that Some by simp
  qed
  define entry1 where "entry1 = entry\<lparr>s_count := s_count entry + 1\<rparr>"
  have "record_firing klines st i (nm, ty, strength) =
      (case map_of stats1 nm of
         None \<Rightarrow> Inl KeyError
       | Some entry \<Rightarrow>
           ebind (calculate_returns klines i default_periods) (\<lambda>returns.
           ebind (apply_returns ty (s_periods (entry\<lparr>s_count := s_count entry + 1\<rparr>)) returns) (\<lambda>periods.
             Inr (AList.update nm (entry\<lparr>s_count := s_count entry + 1, s_periods := periods\<rparr>) stats1))))"
    unfolding record_firing_def stats1_def Let_def by simp
  with r entry have "ebind (calculate_returns klines i default_periods) (\<lambda>returns.
           ebind (apply_returns ty (s_periods entry1) returns) (\<lambda>periods.
             Inr (AList.update nm (entry1\<lparr>s_periods := periods\<rparr>) stats1))) = Inr st'"
    by (simp add: entry1_def)
  then obtain rets ps where
    rets: "calculate_returns klines i default_periods = Inr rets" and
    ps: "apply_returns ty (s_periods entry1) rets = Inr ps" and
    st': "st' = AList.update nm (entry1\<lparr>s_periods := ps\<rparr>) stats1"
    by (auto simp add: ebind_def split: sum.splits)
  let ?g = "\<lambda>h. if i + h < length klines then Some (forward_return klines i h) else None"
  from calculate_returns_eq [OF rets]
  have rets_eq: "rets = map (\<lambda>h. (h, ?g h)) default_periods" .
  from et have keys: "map fst (s_periods entry1) = default_periods"
    by (simp add: entry_tallied_def entry1_def)
  have dist: "distinct default_periods" by (simp add: default_periods_def)
  have sub: "set default_periods \<subseteq> fst ` set (s_periods entry1)"
    using keys by (metis list.set_map order_refl)
  from apply_returns_effect [OF dist sub, of ty ?g] ps rets_eq
  have keys': "map fst ps = default_periods"
    and ps_eq: "\<forall>h. map_of ps h =
              (if h \<in> set default_periods then
                 (case ?g h of None \<Rightarrow> map_of (s_periods entry1) h
                  | Some r \<Rightarrow> map_option (\<lambda>p. update_period ty p r) (map_of (s_periods entry1) h))
               else map_of (s_periods entry1) h)"
    using keys by auto
  have new: "entry_tallied klines nm (fs @ [(i, nm, ty)]) (entry1\<lparr>s_periods := ps\<rparr>)"
    unfolding entry_tallied_def
  proof (intro conjI allI impI)
    show "s_count (entry1\<lparr>s_periods := ps\<rparr>) = length (filter (\<lambda>f. fst (snd f) = nm) (fs @ [(i, nm, ty)]))"
      using et by (simp add: entry_tallied_def entry1_def)
    show "map fst (s_periods (entry1\<lparr>s_periods := ps\<rparr>)) = default_periods"
      using keys' by simp
  next
    fix h p
    assume "map_of (s_periods (entry1\<lparr>s_periods := ps\<rparr>)) h = Some p"
    then have p: "map_of ps h = Some p" by simp
    have old: "map_of (s_periods entry) h = Some q \<Longrightarrow> period_tallied klines nm fs h q" for q
      using et by (simp add: entry_tallied_def)
    show "period_tallied klines nm (fs @ [(i, nm, ty)]) h p"
    proof (cases "i + h < length klines")
      case True
      show ?thesis
      proof (cases "h \<in> set default_periods")
        case inp: True
        with ps_eq p True obtain q where q: "map_of (s_periods entry) h = Some q"
          and pq: "p = update_period ty q (forward_return klines i h)"
          by (auto simp add: entry1_def)
        from period_tallied_update [OF old [OF q] True] pq show ?thesis by simp
      next
        case False
        with keys' p show ?thesis
          by (metis list.set_map map_of_eq_None_iff option.distinct(1))
      qed
    next
      case False
      with ps_eq p have "map_of (s_periods entry) h = Some p"
        by (auto simp add: entry1_def split: if_splits)
      from period_tallied_keep [OF old [OF this] False] show ?thesis .
    qed
  qed
  show ?thesis
    unfolding tallied_def
  proof (intro conjI allI impI)
    show "fst ` set st' = (\<lambda>f. fst (snd f)) ` set (fs @ [(i, nm, ty)])"
    proof -
      have "fst ` set st' = insert nm (fst ` set stats1)"
        by (simp add: st' update_keys flip: set_map) auto
      with names1 t show ?thesis by (auto simp add: tallied_def)
    qed
  next
    fix name e
    assume e: "map_of st' name = Some e"
    show "entry_tallied klines name (fs @ [(i, nm, ty)]) e"
    proof (cases "name = nm")
      case True
      with e have "e = entry1\<lparr>s_periods := ps\<rparr>" by (simp add: st' update_conv')
      with new True show ?thesis by simp
    next
      case False
      with e others have "map_of st name = Some e" by (simp add: st' update_conv')
      with t have "entry_tallied klines name fs e" by (simp add: tallied_def)
      from other_entry_tallied [OF this False] show ?thesis .
    qed
  qed
qed


lemma record_firing_total:
  assumes t: "tallied klines st fs" and c: "k_close (klines ! i) \<noteq> 0"
  shows "\<exists>st'. record_firing klines st i (nm, ty, strength) = Inr st'"
proof -
  define stats1 where "stats1 = (if map_of st nm = None
        then AList.update nm (new_signal_stat ty) st else st)"
  obtain entry where entry: "map_of stats1 nm = Some entry"
    and keys: "map fst (s_periods entry) = default_periods"
  proof (cases "map_of st nm")
    case None
    then have "map_of stats1 nm = Some (new_signal_stat ty)"
      by (simp add: stats1_def update_conv')
    moreover have "map fst (s_periods (new_signal_stat ty)) = default_periods"
      by (simp add: new_signal_stat_def default_periods_def)
    ultimately show ?thesis using that by blast
  next
    case (Some e)
    with t have "map fst (s_periods e) = default_periods"
      by (simp add: tallied_def entry_tallied_def)
    moreover have "map_of stats1 nm = Some e" using Some by (simp add: stats1_def)
    ultimately show ?thesis using that by blast
  qed
  define entry1 where "entry1 = entry\<lparr>s_count := s_count entry + 1\<rparr>"
  from calculate_returns_total [OF c] obtain rets where
    rets: "calculate_returns klines i default_periods = Inr rets" by blast
  let ?g = "\<lambda>h. if i + h < length klines then Some (forward_return klines i h) else None"
  from calculate_returns_eq [OF rets]
  have rets_eq: "rets = map (\<lambda>h. (h, ?g h)) default_periods" .
  have dist: "distinct default_periods" by (simp add: default_periods_def)
  have sub: "set default_periods \<subseteq> fst ` set (s_periods entry1)"
  proof -
    have "map fst (s_periods entry1) = default_periods" using keys by (simp add: entry1_def)
    then show ?thesis by (metis list.set_map order_refl)
  qed
  from apply_returns_effect [OF dist sub, of ty ?g] rets_eq obtain ps where
    ps: "apply_returns ty (s_periods entry1) rets = Inr ps" by auto
  have "record_firing klines st i (nm, ty, strength) =
      (case map_of stats1 nm of
         None \<Rightarrow> Inl KeyError
       | Some entry \<Rightarrow>
           ebind (calculate_returns klines i default_periods) (\<lambda>returns.
           ebind (apply_returns ty (s_periods (entry\<lparr>s_count := s_count entry + 1\<rparr>)) returns) (\<lambda>periods.
             Inr (AList.update nm (entry\<lparr>s_count := s_count entry + 1, s_periods := periods\<rparr>) stats1))))"
    unfolding record_firing_def stats1_def Let_def by simp
  with entry rets ps show ?thesis by (simp add: ebind_def entry1_def)
qed

lemma process_signals_tallied:
  assumes "tallied klines st fs" and "process_signals klines sf st i sigs = Inr st'"
  shows "tallied klines st'
           (fs @ map (\<lambda>sig. (i, fst sig, fst (snd sig))) (filter (\<lambda>sig. \<not> filtered_out sf (fst sig)) sigs))"
  using assms
proof (induction sigs arbitrary: st fs)
  case Nil
  then show ?case by simp
next
  case (Cons sig sigs)
  obtain nm ty strength where sig: "sig = (nm, ty, strength)" by (cases sig)
  show ?case
  proof (cases "filtered_out sf (fst sig)")
    case True
    with Cons show ?thesis by simp
  next
    case False
    with Cons.prems(2) obtain st1 where
      st1: "record_firing klines st i sig = Inr st1" and
      rest: "process_signals klines sf st1 i sigs = Inr st'"
      by (auto simp add: ebind_def split: sum.splits)
    from record_firing_tallied [OF Cons.prems(1) st1 [unfolded sig]]
    have "tallied klines st1 (fs @ [(i, nm, ty)])" .
    from Cons.IH [OF this rest] False show ?thesis by (simp add: sig)
  qed
qed

lemma process_signals_total:
  assumes "tallied klines st fs" and "k_close (klines ! i) \<noteq> 0"
  shows "\<exists>st'. process_signals klines sf st i sigs = Inr st'"
  using assms(1)
proof (induction sigs arbitrary: st fs)
  case Nil
  then show ?case by simp
next
  case (Cons sig sigs)
  obtain nm ty strength where sig: "sig = (nm, ty, strength)" by (cases sig)
  show ?case
  proof (cases "filtered_out sf (fst sig)")
    case True
    with Cons show ?thesis by simp
  next
    case False
    from record_firing_total [OF Cons.prems assms(2), of nm ty strength] obtain st1 where
      st1: "record_firing klines st i sig = Inr st1" by (auto simp add: sig)
    from record_firing_tallied [OF Cons.prems st1 [unfolded sig]]
    have "tallied klines st1 (fs @ [(i, nm, ty)])" .
    from Cons.IH [OF this] obtain st' where "process_signals klines sf st1 i sigs = Inr st'" by blast
    with False st1 show ?thesis by (simp add: ebind_def)
  qed
qed

lemma scan_days_tallied:
  assumes "tallied klines st fs" and "scan_days detect klines sf st days = Inr st'"
  shows "tallied klines st' (fs @ fires detect klines sf days)"
  using assms
proof (induction days arbitrary: st fs)
  case Nil
  then show ?case by (simp add: fires_def)
next
  case (Cons day days)
  from Cons.prems(2) obtain sigs st1 where
    d: "detect klines day = Inr sigs" and
    p: "process_signals klines sf st day sigs = Inr st1" and
    rest: "scan_days detect klines sf st1 days = Inr st'"
    by (auto simp add: ebind_def split: sum.splits)
  let ?today = "map (\<lambda>sig. (day, fst sig, fst (snd sig))) (filter (\<lambda>sig. \<not> filtered_out sf (fst sig)) sigs)"
  from process_signals_tallied [OF Cons.prems(1) p]
  have "tallied klines st1 (fs @ ?today)" .
  from Cons.IH [OF this rest]
  have "tallied klines st' ((fs @ ?today) @ fires detect klines sf days)" .
  moreover have "fires detect klines sf (day # days) = ?today @ fires detect klines sf days"
    using d by (simp add: fires_def)
  ultimately show ?case by simp
qed

lemma scan_days_total:
  assumes "tallied klines st fs"
    and "\<forall>i \<in> set days. (\<exists>sigs. detect klines i = Inr sigs) \<and> k_close (klines ! i) \<noteq> 0"
  shows "\<exists>st'. scan_days detect klines sf st days = Inr st'"
  using assms
proof (induction days arbitrary: st fs)
  case Nil
  then show ?case by simp
next
  case (Cons day days)
  from Cons.prems(2) obtain sigs where d: "detect klines day = Inr sigs"
    and c: "k_close (klines ! day) \<noteq> 0" by auto
  from process_signals_total [OF Cons.prems(1) c, of sf sigs] obtain st1 where
    p: "process_signals klines sf st day sigs = Inr st1" by blast
  from process_signals_tallied [OF Cons.prems(1) p]
  have t1: "tallied klines st1
      (fs @ map (\<lambda>sig. (day, fst sig, fst (snd sig))) (filter (\<lambda>sig. \<not> filtered_out sf (fst sig)) sigs))" .
  from Cons.prems(2)
  have "\<forall>i \<in> set days. (\<exists>sigs. detect klines i = Inr sigs) \<and> k_close (klines ! i) \<noteq> 0" by simp
  from Cons.IH [OF t1 this]
  obtain st' where "scan_days detect klines sf st1 days = Inr st'" by blast
  with d p show ?case by (simp add: ebind_def)
qed


lemma summarise_lookup:
  "map_of (map (\<lambda>(name, e). (name, summarise e)) st) name = map_option summarise (map_of st name)"
  by (induction st) auto

lemma summarise_period_lookup:
  "map_of (map (\<lambda>(h, p). (h, summarise_period p)) ps) h = map_option summarise_period (map_of ps h)"
  by (induction ps) auto

lemma summarise_keys: "fst ` set (map (\<lambda>(name, e). (name, summarise e)) st) = fst ` set st"
  by (induction st) auto

lemma summarise_period_fields:
  "total (summarise_period p) = total p \<and> wins (summarise_period p) = wins p \<and>
   returns (summarise_period p) = returns p \<and>
   win_rate (summarise_period p) = (if 0 < total p then real (wins p) / real (total p) else 0)"
  by (simp add: summarise_period_def)

lemma scanner_counts:
  assumes "backtest_stock detect klines sf = Inr result"
  shows "fst ` set result = (\<lambda>f. fst (snd f)) ` set (fires detect klines sf [30..<length klines]) \<and>
     (\<forall>name st. map_of result name = Some st \<longrightarrow>
        ss_count st = length (filter (\<lambda>f. fst (snd f) = name) (fires detect klines sf [30..<length klines])) \<and>
        (\<forall>h \<in> set default_periods. \<exists>p. map_of (ss_periods st) h = Some p \<and>
            total p = length (resolved klines name h (fires detect klines sf [30..<length klines])) \<and>
            wins p = length (filter (\<lambda>f. is_win (snd (snd f)) (forward_return klines (fst f) h))
                              (resolved klines name h (fires detect klines sf [30..<length klines]))) \<and>
            returns p = map (\<lambda>f. forward_return klines (fst f) h)
                              (resolved klines name h (fires detect klines sf [30..<length klines])) \<and>
            win_rate p = (if 0 < total p then real (wins p) / real (total p) else 0)))"
proof -
  let ?fs = "fires detect klines sf [30..<length klines]"
  from assms obtain stats where
    scan: "scan_days detect klines sf [] [30..<length klines] = Inr stats" and
    result: "result = map (\<lambda>(name, e). (name, summarise e)) stats"
    by (auto simp add: backtest_stock_def ebind_def split: if_splits sum.splits)
  from scan_days_tallied [OF tallied_empty scan]
  have t: "tallied klines stats ?fs" by simp
  then have names: "fst ` set result = (\<lambda>f. fst (snd f)) ` set ?fs"
    by (simp only: result summarise_keys tallied_def)
  have "ss_count st = length (filter (\<lambda>f. fst (snd f) = name) ?fs) \<and>
        (\<forall>h \<in> set default_periods. \<exists>p. map_of (ss_periods st) h = Some p \<and>
            total p = length (resolved klines name h ?fs) \<and>
            wins p = length (filter (\<lambda>f. is_win (snd (snd f)) (forward_return klines (fst f) h))
                              (resolved klines name h ?fs)) \<and>
            returns p = map (\<lambda>f. forward_return klines (fst f) h) (resolved klines name h ?fs) \<and>
            win_rate p = (if 0 < total p then real (wins p) / real (total p) else 0))"
    if st: "map_of result name = Some st" for name st
  proof -
    from st obtain e where e: "map_of stats name = Some e" and ste: "st = summarise e"
      by (auto simp add: result summarise_lookup)
    from t e have et: "entry_tallied klines name ?fs e" by (simp add: tallied_def)
    then have cnt: "ss_count st = length (filter (\<lambda>f. fst (snd f) = name) ?fs)"
      by (simp add: entry_tallied_def ste summarise_def)
    have "\<exists>p. map_of (ss_periods st) h = Some p \<and>
            total p = length (resolved klines name h ?fs) \<and>
            wins p = length (filter (\<lambda>f. is_win (snd (snd f)) (forward_return klines (fst f) h))
                              (resolved klines name h ?fs)) \<and>
            returns p = map (\<lambda>f. forward_return klines (fst f) h) (resolved klines name h ?fs) \<and>
            win_rate p = (if 0 < total p then real (wins p) / real (total p) else 0)"
      if h: "h \<in> set default_periods" for h
    proof -
      from et have "map fst (s_periods e) = default_periods" by (simp add: entry_tallied_def)
      with h have "h \<in> fst ` set (s_periods e)" by (metis list.set_map)
      then obtain q where q: "map_of (s_periods e) h = Some q"
        by (metis domIff dom_map_of_conv_image_fst not_Some_eq)
      with et have pt: "period_tallied klines name ?fs h q" by (simp add: entry_tallied_def)
      have "map_of (ss_periods st) h = Some (summarise_period q)"
        by (simp add: ste summarise_def summarise_period_lookup q)
      with pt summarise_period_fields [of q] show ?thesis
        by (simp add: period_tallied_def)
    qed
    with cnt show ?thesis by blast
  qed
  with names show ?thesis by blast
qed

lemma scanner_returns:
  assumes "50 \<le> length klines"
    and "\<forall>i. 30 \<le> i \<and> i < length klines \<longrightarrow> (\<exists>sigs. detect klines i = Inr sigs) \<and> k_close (klines ! i) \<noteq> 0"
  shows "\<exists>result. backtest_stock detect klines sf = Inr result"
proof -
  from assms(2) have "\<forall>i \<in> set [30..<length klines].
      (\<exists>sigs. detect klines i = Inr sigs) \<and> k_close (klines ! i) \<noteq> 0" by simp
  from scan_days_total [of klines "[]" "[]" "[30..<length klines]" detect sf, OF tallied_empty this]
  obtain stats where "scan_days detect klines sf [] [30..<length klines] = Inr stats" by blast
  with assms(1) show ?thesis by (simp add: backtest_stock_def ebind_def)
qed

lemma all_wins_rate_one:
  assumes p: "total p = length (resolved klines name h fs)"
      "wins p = length (filter (\<lambda>f. is_win (snd (snd f)) (forward_return klines (fst f) h)) (resolved klines name h fs))"
      "win_rate p = (if 0 < total p then real (wins p) / real (total p) else 0)"
    and three: "length (filter (\<lambda>f. fst (snd f) = name) fs) = 3"
    and all: "\<forall>f \<in> set fs. fst (snd f) = name \<longrightarrow>
        snd (snd f) = ''buy'' \<and> fst f + h < length klines \<and> 0 < forward_return klines (fst f) h"
  shows "win_rate p = 1"
proof -
  from all have r: "resolved klines name h fs = filter (\<lambda>f. fst (snd f) = name) fs"
    unfolding resolved_def by (intro filter_cong) auto
  have "\<forall>f \<in> set (filter (\<lambda>f. fst (snd f) = name) fs).
      is_win (snd (snd f)) (forward_return klines (fst f) h)"
    using all by (simp add: is_win_def)
  then have "filter (\<lambda>f. is_win (snd (snd f)) (forward_return klines (fst f) h))
        (filter (\<lambda>f. fst (snd f) = name) fs) = filter (\<lambda>f. fst (snd f) = name) fs"
    by (simp only: filter_id_conv)
  with p r three have "total p = 3" "wins p = 3" by simp_all
  with p(3) show ?thesis by simp
qed


text \<open>
  C8. The scan returns whenever there are at least 50 k-lines, the detector raises on no
  scanned bar and no scanned close is zero. Whenever it returns, the names of the result
  are the names that fired, and for every name: its count is the number of its firings,
  and at each horizon \<open>h\<close> of 1, 3, 5, 10, 20 the total is the number of its firings at
  a bar \<open>i\<close> with \<open>i + h\<close> in range, the wins are those of them whose forward return
  \<open>(close[i+h] - close[i]) / close[i]\<close> is positive for a firing of type \<open>buy\<close> and
  negative for any other type, the returns are these forward returns in the order of the
  scan, and the win rate is \<open>wins / total\<close> (0 without a resolved firing). So a name
  that fires exactly 3 times, each time as a buy signal with a positive forward return over
  5 bars, has the 5-day win rate 1.
\<close>

theorem scanner_win_counting:
  "(50 \<le> length klines \<and>
    (\<forall>i. 30 \<le> i \<and> i < length klines \<longrightarrow>
       (\<exists>sigs. detect klines i = Inr sigs) \<and> k_close (klines ! i) \<noteq> 0) \<longrightarrow>
    (\<exists>result. backtest_stock detect klines sf = Inr result)) \<and>
   (backtest_stock detect klines sf = Inr result \<longrightarrow>
      fst ` set result = (\<lambda>f. fst (snd f)) ` set (fires detect klines sf [30..<length klines]) \<and>
      (\<forall>name st. map_of result name = Some st \<longrightarrow>
         ss_count st = length (filter (\<lambda>f. fst (snd f) = name) (fires detect klines sf [30..<length klines])) \<and>
         (\<forall>h \<in> set default_periods. \<exists>p. map_of (ss_periods st) h = Some p \<and>
             total p = length (resolved klines name h (fires detect klines sf [30..<length klines])) \<and>
             wins p = length (filter (\<lambda>f. is_win (snd (snd f)) (forward_return klines (fst f) h))
                               (resolved klines name h (fires detect klines sf [30..<length klines]))) \<and>
             returns p = map (\<lambda>f. forward_return klines (fst f) h)
                               (resolved klines name h (fires detect klines sf [30..<length klines])) \<and>
             win_rate p = (if 0 < total p then real (wins p) / real (total p) else 0)) \<and>
         (ss_count st = 3 \<and>
          (\<forall>f \<in> set (fires detect klines sf [30..<length klines]). fst (snd f) = name \<longrightarrow>
             snd (snd f) = ''buy'' \<and> fst f + 5 < length klines \<and> 0 < forward_return klines (fst f) 5) \<longrightarrow>
          (\<exists>p. map_of (ss_periods st) 5 = Some p \<and> win_rate p = 1))))"
proof (intro conjI impI)
  assume "50 \<le> length klines \<and>
    (\<forall>i. 30 \<le> i \<and> i < length klines \<longrightarrow>
       (\<exists>sigs. detect klines i = Inr sigs) \<and> k_close (klines ! i) \<noteq> 0)"
  then show "\<exists>result. backtest_stock detect klines sf = Inr result"
    using scanner_returns [of klines detect sf] by blast
next
  assume r: "backtest_stock detect klines sf = Inr result"
  let ?fs = "fires detect klines sf [30..<length klines]"
  note c = scanner_counts [OF r]
  from c show "fst ` set result = (\<lambda>f. fst (snd f)) ` set ?fs" by blast
  show "\<forall>name st. map_of result name = Some st \<longrightarrow>
         ss_count st = length (filter (\<lambda>f. fst (snd f) = name) ?fs) \<and>
         (\<forall>h \<in> set default_periods. \<exists>p. map_of (ss_periods st) h = Some p \<and>
             total p = length (resolved klines name h ?fs) \<and>
             wins p = length (filter (\<lambda>f. is_win (snd (snd f)) (forward_return klines (fst f) h))
                               (resolved klines name h ?fs)) \<and>
             returns p = map (\<lambda>f. forward_return klines (fst f) h) (resolved klines name h ?fs) \<and>
             win_rate p = (if 0 < total p then real (wins p) / real (total p) else 0)) \<and>
         (ss_count st = 3 \<and>
          (\<forall>f \<in> set ?fs. fst (snd f) = name \<longrightarrow>
             snd (snd f) = ''buy'' \<and> fst f + 5 < length klines \<and> 0 < forward_return klines (fst f) 5) \<longrightarrow>
          (\<exists>p. map_of (ss_periods st) 5 = Some p \<and> win_rate p = 1))"
  proof (intro allI impI)
    fix name st
    assume st: "map_of result name = Some st"
    with c have cnt: "ss_count st = length (filter (\<lambda>f. fst (snd f) = name) ?fs)"
      and per: "\<forall>h \<in> set default_periods. \<exists>p. map_of (ss_periods st) h = Some p \<and>
             total p = length (resolved klines name h ?fs) \<and>
             wins p = length (filter (\<lambda>f. is_win (snd (snd f)) (forward_return klines (fst f) h))
                               (resolved klines name h ?fs)) \<and>
             returns p = map (\<lambda>f. forward_return klines (fst f) h) (resolved klines name h ?fs) \<and>
             win_rate p = (if 0 < total p then real (wins p) / real (total p) else 0)"
      by blast+
    have scen: "\<exists>p. map_of (ss_periods st) 5 = Some p \<and> win_rate p = 1"
      if three: "ss_count st = 3"
        and all: "\<forall>f \<in> set ?fs. fst (snd f) = name \<longrightarrow>
             snd (snd f) = ''buy'' \<and> fst f + 5 < length klines \<and> 0 < forward_return klines (fst f) 5"
    proof -
      have "5 \<in> set default_periods" by (simp add: default_periods_def)
      with per obtain p where p: "map_of (ss_periods st) 5 = Some p"
        "total p = length (resolved klines name 5 ?fs)"
        "wins p = length (filter (\<lambda>f. is_win (snd (snd f)) (forward_return klines (fst f) 5))
                               (resolved klines name 5 ?fs))"
        "win_rate p = (if 0 < total p then real (wins p) / real (total p) else 0)"
        by blast
      from three cnt have "length (filter (\<lambda>f. fst (snd f) = name) ?fs) = 3" by simp
      from all_wins_rate_one [OF p(2,3,4) this all] p(1) show ?thesis by blast
    qed
    from cnt per scen
    show "ss_count st = length (filter (\<lambda>f. fst (snd f) = name) ?fs) \<and>
         (\<forall>h \<in> set default_periods. \<exists>p. map_of (ss_periods st) h = Some p \<and>
             total p = length (resolved klines name h ?fs) \<and>
             wins p = length (filter (\<lambda>f. is_win (snd (snd f)) (forward_return klines (fst f) h))
                               (resolved klines name h ?fs)) \<and>
             returns p = map (\<lambda>f. forward_return klines (fst f) h) (resolved klines name h ?fs) \<and>
             win_rate p = (if 0 < total p then real (wins p) / real (total p) else 0)) \<and>
         (ss_count st = 3 \<and>
          (\<forall>f \<in> set ?fs. fst (snd f) = name \<longrightarrow>
             snd (snd f) = ''buy'' \<and> fst f + 5 < length klines \<and> 0 < forward_return klines (fst f) 5) \<longrightarrow>
          (\<exists>p. map_of (ss_periods st) 5 = Some p \<and> win_rate p = 1))"
      by blast
  qed
qed

lemma rising_close: "i < 60 \<Longrightarrow> k_close (rising_klines ! i) = 100 + real i"
  by (simp add: rising_klines_def)

lemma rising_fires:
  "fires three_crosses rising_klines None [30..<length rising_klines] =
     [(30, ''MACD_golden_cross'', ''buy''), (35, ''MACD_golden_cross'', ''buy''),
      (40, ''MACD_golden_cross'', ''buy'')]"
  by code_simp

theorem scanner_win_counting_witness:
  "50 \<le> length rising_klines \<and>
   (\<exists>result st p. backtest_stock three_crosses rising_klines None = Inr result \<and>
      map_of result ''MACD_golden_cross'' = Some st \<and> ss_count st = 3 \<and>
      map_of (ss_periods st) 5 = Some p \<and> win_rate p = 1)"
proof -
  have len: "length rising_klines = 60" by (simp add: rising_klines_def)
  have nz: "k_close (rising_klines ! i) \<noteq> 0" if "i < 60" for i
    using rising_close [OF that] by simp
  have det: "\<exists>sigs. three_crosses rising_klines i = Inr sigs" for i
    by (simp add: three_crosses_def)
  have hyp: "50 \<le> length rising_klines \<and>
    (\<forall>i. 30 \<le> i \<and> i < length rising_klines \<longrightarrow>
       (\<exists>sigs. three_crosses rising_klines i = Inr sigs) \<and> k_close (rising_klines ! i) \<noteq> 0)"
    using nz det by (simp only: len) simp
  let ?fs = "fires three_crosses rising_klines None [30..<length rising_klines]"
  from scanner_win_counting [of rising_klines three_crosses None, THEN conjunct1, THEN mp, OF hyp]
  obtain result where r: "backtest_stock three_crosses rising_klines None = Inr result" ..
  note facts = scanner_win_counting [of rising_klines three_crosses None result, THEN conjunct2, THEN mp, OF r]
  from facts [THEN conjunct1]
  have names: "fst ` set result = (\<lambda>f. fst (snd f)) ` set ?fs" .
  then have "''MACD_golden_cross'' \<in> fst ` set result"
    by (simp only: rising_fires) simp
  then obtain st where st: "map_of result ''MACD_golden_cross'' = Some st"
    by (metis domIff dom_map_of_conv_image_fst not_Some_eq)
  note ent = facts [THEN conjunct2, THEN spec, THEN spec, THEN mp, OF st]
  from ent [THEN conjunct1]
  have cnt: "ss_count st = 3" by (simp only: rising_fires) simp
  have all: "\<forall>f \<in> set ?fs. fst (snd f) = ''MACD_golden_cross'' \<longrightarrow>
             snd (snd f) = ''buy'' \<and> fst f + 5 < length rising_klines \<and>
             0 < forward_return rising_klines (fst f) 5"
    unfolding rising_fires by (simp add: len forward_return_def rising_close)
  from ent [THEN conjunct2, THEN conjunct2, THEN mp, OF conjI, OF cnt all]
  obtain p where "map_of (ss_periods st) 5 = Some p \<and> win_rate p = 1" ..
  with r st cnt hyp show ?thesis by blast
qed

end
